theory Spec2Isabelle
  imports Complex_Main
begin

section \<open>The study planner of server/controllers/plannerController.js\<close>

text \<open>
  The scheduling engine of the planner controller: \<open>parseTimeString\<close>, \<open>getDailyWindow\<close>,
  \<open>buildBreaksForDay\<close>, \<open>buildStudyWindows\<close>, \<open>choosePreferredBlockMinutes\<close>,
  \<open>pickBlockLength\<close> and \<open>buildStructuredPlan\<close>.

  Instants. Every \<open>Date\<close> the engine builds has its seconds and milliseconds set to zero
  (\<open>setHours(h, m, 0, 0)\<close>), so an instant is a whole number of minutes of local time. The
  local time zone is taken without clock changes, so that a calendar day is 1440 minutes and
  \<open>setDate(getDate() + k)\<close> adds \<open>k * 1440\<close> minutes.

  Numbers. Minute counts are JavaScript numbers holding integers; they are \<open>int\<close> here.
  The engine takes times of day with whole hours and minutes, as \<open>HH:MM\<close> strings give
  them; \<open>parseTimeString\<close> itself is modelled on JavaScript numbers.
\<close>

subsection \<open>Constants\<close>

definition FIXED_BREAKS :: "(string \<times> int \<times> int) list" where
  "FIXED_BREAKS =
     [(''Lunch Break'', 13, 14), (''Snack Break'', 17, 18), (''Dinner Break'', 20, 21)]"

definition MIN_BLOCK_MINUTES :: int where
  "MIN_BLOCK_MINUTES = 60"

definition MAX_BLOCK_MINUTES :: int where
  "MAX_BLOCK_MINUTES = 120"

subsection \<open>Data\<close>

text \<open>
  \<open>{start, end}\<close> is a free slot, \<open>{title, start, end}\<close> a break and
  \<open>{subjectId, title, start, end, completed}\<close> a plan item; the records extend one another
  so that \<open>start\<close> and \<open>end'\<close> read all three, as the property access of the source does.
\<close>

record slot =
  start :: int
  end' :: int

record brk = slot +
  title :: string

record item = brk +
  subjectId :: "string option"
  completed :: bool

record 'n time =
  hours :: 'n
  minutes :: 'n

record planArgs =
  anchorDate :: int
  subjectNames :: "string list"
  totalDays :: nat
  startTime :: "int time"
  endTime :: "int time"
  maxStudyMinutesPerDay :: int

subsection \<open>parseTimeString\<close>

text \<open>
  A JavaScript number is \<open>NaN\<close>, an infinity or a finite value; \<open><\<close> and \<open>>\<close> are false
  whenever an operand is \<open>NaN\<close>. \<open>Number(undefined)\<close> is \<open>NaN\<close> and \<open>Number('')\<close> is 0
  (the language's \<open>StringToNumber\<close> gives \<open>+0\<close> for the empty string); the conversion of
  every other string is the language's and is a parameter of the model, \<open>stringToNumber\<close>.
  A destructured array element that is missing is \<open>undefined\<close>, here \<open>None\<close>. A value
  that is not a string is of another type; \<open>JObject\<close> stands for every type not listed.
\<close>

datatype number = NaN | NegInfinity | Fin real | Infinity

fun numLess :: "number \<Rightarrow> number \<Rightarrow> bool" where
  "numLess (Fin a) (Fin b) = (a < b)"
| "numLess NegInfinity (Fin b) = True"
| "numLess NegInfinity Infinity = True"
| "numLess (Fin a) Infinity = True"
| "numLess _ _ = False"

datatype jsvalue = JUndefined | JNull | JBoolean bool | JNumber number | JString string | JObject

datatype error = Error string

fun split :: "string \<Rightarrow> char \<Rightarrow> string list" where
  "split [] sep = [[]]"
| "split (c # cs) sep =
     (if c = sep then [] # split cs sep
      else case split cs sep of [] \<Rightarrow> [[c]] | p # ps \<Rightarrow> (c # p) # ps)"

definition element :: "string list \<Rightarrow> nat \<Rightarrow> string option" where
  "element xs i = (if i < length xs then Some (xs ! i) else None)"

definition Number :: "(string \<Rightarrow> number) \<Rightarrow> string option \<Rightarrow> number" where
  "Number stringToNumber v =
     (case v of None \<Rightarrow> NaN | Some s \<Rightarrow> if s = [] then Fin 0 else stringToNumber s)"

definition parseTimeString :: "(string \<Rightarrow> number) \<Rightarrow> jsvalue \<Rightarrow> error + number time" where
  "parseTimeString stringToNumber v =
     (case v of
        JString s \<Rightarrow>
          (let parts = split s (CHR '':'');
               hoursStr = element parts 0;
               minutesStr = element parts 1;
               h = Number stringToNumber hoursStr;
               m = Number stringToNumber minutesStr
           in if h = NaN \<or> m = NaN \<or> numLess h (Fin 0) \<or> numLess (Fin 23) h
                 \<or> numLess m (Fin 0) \<or> numLess (Fin 59) m
              then Inl (Error (''Invalid time format: '' @ s))
              else Inr \<lparr>hours = h, minutes = m\<rparr>)
      | _ \<Rightarrow> Inl (Error ''Time must be in HH:MM format''))"

subsection \<open>Date arithmetic\<close>

definition setHours :: "int \<Rightarrow> int \<Rightarrow> int \<Rightarrow> int" where
  \<comment> \<open>\<open>d.setHours(h, m, 0, 0)\<close>: the local midnight of \<open>d\<close>'s day, plus \<open>h\<close> hours and \<open>m\<close> minutes\<close>
  "setHours d h m = d - d mod 1440 + h * 60 + m"

definition addDays :: "int \<Rightarrow> int \<Rightarrow> int" where
  \<comment> \<open>\<open>d.setDate(d.getDate() + k)\<close>\<close>
  "addDays d k = d + k * 1440"

definition minutesBetweenDates :: "int \<Rightarrow> int \<Rightarrow> int" where
  "minutesBetweenDates s e = max 0 (e - s)"

definition addMinutes :: "int \<Rightarrow> int \<Rightarrow> int" where
  "addMinutes date m = date + m"

subsection \<open>getDailyWindow\<close>

definition getDailyWindow :: "int \<Rightarrow> int \<Rightarrow> int time \<Rightarrow> int time \<Rightarrow> int \<times> int" where
  "getDailyWindow anchor dayIndex startT endT =
     (let dayStart = setHours (addDays anchor dayIndex) (hours startT) (minutes startT);
          dayEnd = setHours (addDays anchor dayIndex) (hours endT) (minutes endT)
      in (dayStart, if dayEnd \<le> dayStart then addDays dayEnd 1 else dayEnd))"

subsection \<open>buildBreaksForDay\<close>

definition placeBreak :: "int \<Rightarrow> int \<Rightarrow> int \<Rightarrow> string \<times> int \<times> int \<Rightarrow> brk list" where
  \<comment> \<open>the body of the loop over \<open>FIXED_BREAKS\<close>: what one break pushes\<close>
  "placeBreak baseDay windowStart windowEnd b =
     (case b of (btitle, startHour, endHour) \<Rightarrow>
        let start0 = setHours baseDay startHour 0;
            end0 = setHours baseDay endHour 0;
            end1 = (if end0 \<le> start0 then addDays end0 1 else end0);
            s = (if start0 < windowStart then addDays start0 1 else start0);
            e = (if start0 < windowStart then addDays end1 1 else end1)
        in if s \<ge> windowStart \<and> e \<le> windowEnd
           then [\<lparr>start = s, end' = e, title = btitle\<rparr>] else [])"

definition buildBreaksForDay :: "int \<Rightarrow> int \<Rightarrow> int \<Rightarrow> int \<Rightarrow> brk list" where
  "buildBreaksForDay anchor dayIndex windowStart windowEnd =
     (let baseDay = setHours (addDays anchor dayIndex) 0 0
      in sort_key start (concat (map (placeBreak baseDay windowStart windowEnd) FIXED_BREAKS)))"

subsection \<open>buildStudyWindows\<close>

fun carveWindows :: "int \<Rightarrow> brk list \<Rightarrow> slot list \<times> int" where
  \<comment> \<open>the loop over the sorted breaks: the windows pushed, and the cursor after the loop\<close>
  "carveWindows cursor [] = ([], cursor)"
| "carveWindows cursor (b # bs) =
     (let pushed = (if start b > cursor then [\<lparr>start = cursor, end' = start b\<rparr>] else []);
          cursor1 = (if end' b > cursor then end' b else cursor);
          rest = carveWindows cursor1 bs
      in (pushed @ fst rest, snd rest))"

definition candidateWindows :: "int \<Rightarrow> int \<Rightarrow> brk list \<Rightarrow> slot list" where
  \<comment> \<open>\<open>windows\<close> as it stands before the final \<open>filter\<close>\<close>
  "candidateWindows dayStart dayEnd breaks =
     (let r = carveWindows dayStart (sort_key start breaks)
      in if snd r < dayEnd then fst r @ [\<lparr>start = snd r, end' = dayEnd\<rparr>] else fst r)"

definition buildStudyWindows :: "int \<Rightarrow> int \<Rightarrow> brk list \<Rightarrow> slot list" where
  "buildStudyWindows dayStart dayEnd breaks =
     filter (\<lambda>s. minutesBetweenDates (start s) (end' s) \<ge> MIN_BLOCK_MINUTES)
       (candidateWindows dayStart dayEnd breaks)"

subsection \<open>Block sizes\<close>

definition choosePreferredBlockMinutes :: "int \<Rightarrow> int \<Rightarrow> int" where
  "choosePreferredBlockMinutes availableMinutes subjectCount =
     (if availableMinutes < MIN_BLOCK_MINUTES \<or> subjectCount \<le> 0 then 0
      else let perSubject = real_of_int availableMinutes / real_of_int subjectCount
           in if perSubject \<ge> 90 \<and> availableMinutes \<ge> MAX_BLOCK_MINUTES
              then MAX_BLOCK_MINUTES else MIN_BLOCK_MINUTES)"

definition pickBlockLength :: "int \<Rightarrow> int \<Rightarrow> int \<Rightarrow> int" where
  "pickBlockLength preferred slotRemaining capRemaining =
     (if preferred \<noteq> 0 \<and> slotRemaining \<ge> preferred \<and> capRemaining \<ge> preferred then preferred
      else if slotRemaining \<ge> MIN_BLOCK_MINUTES \<and> capRemaining \<ge> MIN_BLOCK_MINUTES
           then MIN_BLOCK_MINUTES
      else 0)"

subsection \<open>buildStructuredPlan\<close>

definition subjectAt :: "string list \<Rightarrow> nat \<Rightarrow> string" where
  \<comment> \<open>\<open>subjectNames[subjectCursor % subjectNames.length]\<close> inside the template literal; on an
      empty array the index is \<open>NaN\<close> and the element \<open>undefined\<close>\<close>
  "subjectAt names cursor =
     (if names = [] then ''undefined'' else names ! (cursor mod length names))"

definition studySession :: "string list \<Rightarrow> nat \<Rightarrow> int \<Rightarrow> int \<Rightarrow> item" where
  "studySession names subjectCursor cursor blockLength =
     \<lparr>start = cursor, end' = addMinutes cursor blockLength,
      title = ''Study '' @ subjectAt names subjectCursor,
      subjectId = None, completed = False\<rparr>"

text \<open>
  The \<open>while (minutesScheduled < dayCap)\<close> loop of one window. The state is the local cursor,
  \<open>minutesScheduled\<close>, \<open>subjectCursor\<close> and \<open>sessions\<close>. A loop that never leaves is \<open>None\<close>.
\<close>

partial_function (option) fillWindow ::
  "int \<Rightarrow> int \<Rightarrow> string list \<Rightarrow> int \<Rightarrow> int \<Rightarrow> int \<Rightarrow> nat \<Rightarrow> item list
     \<Rightarrow> (int \<times> nat \<times> item list) option" where
  "fillWindow preferredBlock dayCap names windowEnd cursor minutesScheduled subjectCursor sessions =
     (if minutesScheduled < dayCap then
        (let slotRemaining = minutesBetweenDates cursor windowEnd;
             capRemaining = dayCap - minutesScheduled;
             blockLength = pickBlockLength preferredBlock slotRemaining capRemaining
         in if blockLength = 0 then Some (minutesScheduled, subjectCursor, sessions)
            else fillWindow preferredBlock dayCap names windowEnd
                   (addMinutes cursor blockLength) (minutesScheduled + blockLength)
                   (subjectCursor + 1)
                   (sessions @ [studySession names subjectCursor cursor blockLength]))
      else Some (minutesScheduled, subjectCursor, sessions))"

fun fillWindows ::
  "int \<Rightarrow> int \<Rightarrow> string list \<Rightarrow> slot list \<Rightarrow> int \<Rightarrow> nat \<Rightarrow> item list
     \<Rightarrow> (int \<times> nat \<times> item list) option" where
  \<comment> \<open>the \<open>for (const window of windows)\<close> loop, with its \<open>break\<close> at the day cap\<close>
  "fillWindows preferredBlock dayCap names [] minutesScheduled subjectCursor sessions =
     Some (minutesScheduled, subjectCursor, sessions)"
| "fillWindows preferredBlock dayCap names (w # ws) minutesScheduled subjectCursor sessions =
     (case fillWindow preferredBlock dayCap names (end' w) (start w)
             minutesScheduled subjectCursor sessions of
        None \<Rightarrow> None
      | Some (minutesScheduled1, subjectCursor1, sessions1) \<Rightarrow>
          if minutesScheduled1 \<ge> dayCap then Some (minutesScheduled1, subjectCursor1, sessions1)
          else fillWindows preferredBlock dayCap names ws
                 minutesScheduled1 subjectCursor1 sessions1)"

definition breakItem :: "brk \<Rightarrow> item" where
  "breakItem b =
     \<lparr>start = start b, end' = end' b, title = title b, subjectId = None, completed = False\<rparr>"

definition baseDate :: "planArgs \<Rightarrow> int" where
  \<comment> \<open>\<open>new Date(anchorDate)\<close> with \<open>setHours(0, 0, 0, 0)\<close>\<close>
  "baseDate a = setHours (anchorDate a) 0 0"

definition dayWindow :: "planArgs \<Rightarrow> nat \<Rightarrow> int \<times> int" where
  "dayWindow a dayIndex = getDailyWindow (baseDate a) (int dayIndex) (startTime a) (endTime a)"

definition dayBreaks :: "planArgs \<Rightarrow> nat \<Rightarrow> brk list" where
  "dayBreaks a dayIndex =
     buildBreaksForDay (baseDate a) (int dayIndex)
       (fst (dayWindow a dayIndex)) (snd (dayWindow a dayIndex))"

definition dayWindows :: "planArgs \<Rightarrow> nat \<Rightarrow> slot list" where
  "dayWindows a dayIndex =
     buildStudyWindows (fst (dayWindow a dayIndex)) (snd (dayWindow a dayIndex))
       (dayBreaks a dayIndex)"

definition availableMinutes :: "slot list \<Rightarrow> int" where
  "availableMinutes windows =
     foldl (\<lambda>sum s. sum + minutesBetweenDates (start s) (end' s)) 0 windows"

definition planDay :: "planArgs \<Rightarrow> nat \<Rightarrow> nat \<Rightarrow> (item list \<times> nat) option" where
  \<comment> \<open>the body of the loop over \<open>dayIndex\<close>: the items pushed for the day, and the cursor\<close>
  "planDay a dayIndex subjectCursor =
     (let breaks = dayBreaks a dayIndex;
          windows = dayWindows a dayIndex;
          available = availableMinutes windows
      in if available = 0 then Some (map breakItem breaks, subjectCursor)
         else let preferredBlock =
                    choosePreferredBlockMinutes available (int (length (subjectNames a)))
              in if preferredBlock = 0 then Some (map breakItem breaks, subjectCursor)
                 else let dayCap = min (maxStudyMinutesPerDay a) available
                      in case fillWindows preferredBlock dayCap (subjectNames a) windows
                                0 subjectCursor [] of
                           None \<Rightarrow> None
                         | Some (minutesScheduled, subjectCursor1, sessions) \<Rightarrow>
                             Some (sort_key start (sessions @ map breakItem breaks),
                                   subjectCursor1))"

definition daySessions :: "planArgs \<Rightarrow> nat \<Rightarrow> nat \<Rightarrow> (item list \<times> nat) option" where
  \<comment> \<open>the \<open>sessions\<close> array of the same loop body, before it is merged with the breaks;
      empty on a day that pushes its breaks only\<close>
  "daySessions a dayIndex subjectCursor =
     (let windows = dayWindows a dayIndex;
          available = availableMinutes windows
      in if available = 0 then Some ([], subjectCursor)
         else let preferredBlock =
                    choosePreferredBlockMinutes available (int (length (subjectNames a)))
              in if preferredBlock = 0 then Some ([], subjectCursor)
                 else let dayCap = min (maxStudyMinutesPerDay a) available
                      in case fillWindows preferredBlock dayCap (subjectNames a) windows
                                0 subjectCursor [] of
                           None \<Rightarrow> None
                         | Some (minutesScheduled, subjectCursor1, sessions) \<Rightarrow>
                             Some (sessions, subjectCursor1))"

fun planDays :: "planArgs \<Rightarrow> nat list \<Rightarrow> nat \<Rightarrow> item list \<Rightarrow> item list option" where
  "planDays a [] subjectCursor items = Some items"
| "planDays a (dayIndex # rest) subjectCursor items =
     (case planDay a dayIndex subjectCursor of
        None \<Rightarrow> None
      | Some (dayItems, subjectCursor1) \<Rightarrow> planDays a rest subjectCursor1 (items @ dayItems))"

definition buildStructuredPlan :: "planArgs \<Rightarrow> item list option" where
  "buildStructuredPlan a = planDays a [0 ..< totalDays a] 0 []"

subsection \<open>The study-item test of createPlan\<close>

text \<open>
  \<open>createPlan\<close> counts the study items of a plan by
  \<open>item.title.toLowerCase().startsWith('study')\<close>. Lower-casing is modelled on the ASCII
  letters and leaves every other character as it is.
\<close>

definition lowerChar :: "char \<Rightarrow> char" where
  "lowerChar c = (let n = (of_char c :: nat) in if 65 \<le> n \<and> n \<le> 90 then char_of (n + 32) else c)"

definition toLowerCase :: "string \<Rightarrow> string" where
  "toLowerCase s = map lowerChar s"

definition startsWith :: "string \<Rightarrow> string \<Rightarrow> bool" where
  "startsWith s p = (take (length p) s = p)"

definition isStudyItem :: "item \<Rightarrow> bool" where
  "isStudyItem it = startsWith (toLowerCase (title it)) ''study''"

declare fillWindow.simps [code]

section \<open>Vocabulary of the properties\<close>

text \<open>
  Intervals are half-open: \<open>x\<close> holds the instants \<open>t\<close> with \<open>start x \<le> t < end' x\<close>.
\<close>

definition proper :: "('a slot_scheme) \<Rightarrow> bool" where
  "proper x = (start x < end' x)"

definition before :: "('a slot_scheme) \<Rightarrow> ('b slot_scheme) \<Rightarrow> bool" where
  "before x y = (end' x \<le> start y)"

definition disj :: "('a slot_scheme) \<Rightarrow> ('b slot_scheme) \<Rightarrow> bool" where
  "disj x y = (end' x \<le> start y \<or> end' y \<le> start x)"

definition covers :: "('a slot_scheme) list \<Rightarrow> int \<Rightarrow> bool" where
  "covers xs t = (\<exists>x\<in>set xs. start x \<le> t \<and> t < end' x)"

definition fitsIn :: "('a slot_scheme) list \<Rightarrow> ('b slot_scheme) \<Rightarrow> bool" where
  "fitsIn ws x = (\<exists>w\<in>set ws. start w \<le> start x \<and> end' x \<le> end' w)"

definition duration :: "('a slot_scheme) \<Rightarrow> int" where
  "duration x = minutesBetweenDates (start x) (end' x)"

definition studyMinutes :: "('a slot_scheme) list \<Rightarrow> int" where
  "studyMinutes xs = sum_list (map duration xs)"

definition roundRobin :: "string list \<Rightarrow> nat \<Rightarrow> nat \<Rightarrow> string list" where
  "roundRobin names c n = map (\<lambda>k. ''Study '' @ subjectAt names k) [c ..< c + n]"

definition studyTitles :: "item list \<Rightarrow> string list" where
  "studyTitles items = map title (filter isStudyItem items)"

definition placedIn :: "string list \<Rightarrow> slot list \<Rightarrow> nat \<Rightarrow> item list \<Rightarrow> bool" where
  "placedIn names ws c ss =
     (sorted_wrt before ss
      \<and> (\<forall>s\<in>set ss. proper s \<and> fitsIn ws s \<and> subjectId s = None \<and> completed s = False)
      \<and> map title ss = roundRobin names c (length ss))"

definition placedBreaks :: "int \<Rightarrow> int \<Rightarrow> brk list \<Rightarrow> bool" where
  "placedBreaks S E bs =
     (sorted_wrt before bs \<and> (\<forall>b\<in>set bs. S \<le> start b \<and> proper b \<and> end' b \<le> E))"

text \<open>
  A time of day as \<open>parseTimeString\<close> admits it, with whole hours and minutes.
\<close>

definition validTime :: "int time \<Rightarrow> bool" where
  "validTime t = (0 \<le> hours t \<and> hours t \<le> 23 \<and> 0 \<le> minutes t \<and> minutes t \<le> 59)"

text \<open>
  The break placer in the words of its description: the candidate interval of a fixed break
  on the day whose midnight is \<open>day\<close>, and the shift by one day of a candidate that starts
  before the window does.
\<close>

definition candidateBreak :: "int \<Rightarrow> string \<times> int \<times> int \<Rightarrow> brk" where
  "candidateBreak day b =
     (case b of (btitle, startHour, endHour) \<Rightarrow>
        \<lparr>start = day + startHour * 60,
         end' = (if endHour \<le> startHour then day + endHour * 60 + 1440 else day + endHour * 60),
         title = btitle\<rparr>)"

definition shiftBreak :: "int \<Rightarrow> brk \<Rightarrow> brk" where
  "shiftBreak windowStart c =
     (if start c < windowStart then c\<lparr>start := start c + 1440, end' := end' c + 1440\<rparr> else c)"

text \<open>
  The candidate windows that \<open>buildStudyWindows\<close> filters out: the residues shorter than
  the minimum block.
\<close>

definition shortResidues :: "int \<Rightarrow> int \<Rightarrow> brk list \<Rightarrow> slot list" where
  "shortResidues dayStart dayEnd breaks =
     filter (\<lambda>s. minutesBetweenDates (start s) (end' s) < MIN_BLOCK_MINUTES)
       (candidateWindows dayStart dayEnd breaks)"

definition strictlyBefore :: "('a slot_scheme) \<Rightarrow> ('b slot_scheme) \<Rightarrow> bool" where
  "strictlyBefore x y = (start x < start y \<and> end' x \<le> start y)"

text \<open>
  The time parser in the words of its description: the hour component of a string is the
  text before its first colon, the minute component the text between the first colon and
  the second, missing when the string has no colon.
\<close>

definition isString :: "jsvalue \<Rightarrow> bool" where
  "isString v = (case v of JString s \<Rightarrow> True | _ \<Rightarrow> False)"

definition hourComponent :: "string \<Rightarrow> string" where
  "hourComponent s = takeWhile (\<lambda>c. c \<noteq> CHR '':'') s"

definition minuteComponent :: "string \<Rightarrow> string option" where
  "minuteComponent s =
     (if CHR '':'' \<in> set s
      then Some (takeWhile (\<lambda>c. c \<noteq> CHR '':'') (tl (dropWhile (\<lambda>c. c \<noteq> CHR '':'') s)))
      else None)"

section \<open>Block sizes\<close>

lemma perSubject_ge_iff:
  "0 < n \<Longrightarrow> (real_of_int a / real_of_int n \<ge> 90) = (90 * n \<le> a)"
proof -
  assume n: "0 < n"
  then have "(90 \<le> real_of_int a / real_of_int n) = (90 * real_of_int n \<le> real_of_int a)"
    by (simp add: pos_le_divide_eq)
  also have "\<dots> = (real_of_int (90 * n) \<le> real_of_int a)"
    by simp
  also have "\<dots> = (90 * n \<le> a)"
    by (simp only: of_int_le_iff)
  finally show ?thesis .
qed

lemma choosePreferredBlockMinutes_int:
  "choosePreferredBlockMinutes a n =
     (if a < 60 \<or> n \<le> 0 then 0 else if 90 * n \<le> a \<and> 120 \<le> a then 120 else 60)"
  by (simp add: choosePreferredBlockMinutes_def MIN_BLOCK_MINUTES_def MAX_BLOCK_MINUTES_def
      Let_def perSubject_ge_iff)

section \<open>Intervals, sorting and the loops\<close>

lemma insort_before:
  "sorted_wrt before ys \<Longrightarrow> proper x \<Longrightarrow> \<forall>y\<in>set ys. proper y \<and> disj x y
     \<Longrightarrow> sorted_wrt before (insort_key start x ys)"
proof (induction ys)
  case Nil
  then show ?case by simp
next
  case (Cons y ys)
  then show ?case
    by (auto simp add: set_insort_key before_def disj_def proper_def)
qed

lemma sort_before:
  "sorted_wrt disj xs \<Longrightarrow> \<forall>x\<in>set xs. proper x \<Longrightarrow> sorted_wrt before (sort_key start xs)"
proof (induction xs)
  case Nil
  then show ?case by simp
next
  case (Cons x xs)
  then show ?case
    by (simp add: insort_before)
qed

lemma before_sorted:
  "sorted_wrt before xs \<Longrightarrow> \<forall>x\<in>set xs. proper x \<Longrightarrow> sorted (map start xs)"
  by (induction xs) (auto simp add: before_def proper_def)

lemma before_disj: "sorted_wrt before xs \<Longrightarrow> sorted_wrt disj xs"
  by (induction xs) (auto simp add: before_def disj_def)

lemma carve_Cons:
  "proper b \<Longrightarrow> c \<le> start b \<Longrightarrow>
   carveWindows c (b # bs) =
     ((if c < start b then [\<lparr>start = c, end' = start b\<rparr>] else []) @ fst (carveWindows (end' b) bs),
      snd (carveWindows (end' b) bs))"
  by (simp add: Let_def proper_def)

lemma before_tail:
  "sorted_wrt before (b # bs) \<Longrightarrow> \<forall>x\<in>set (b # bs). proper x \<and> c \<le> start x \<Longrightarrow>
   sorted_wrt before bs \<and> (\<forall>x\<in>set bs. proper x \<and> end' b \<le> start x)"
  by (simp add: before_def)

lemma carve_cursor:
  "sorted_wrt before bs \<Longrightarrow> \<forall>b\<in>set bs. proper b \<and> c \<le> start b \<Longrightarrow>
     c \<le> snd (carveWindows c bs) \<and> (\<forall>b\<in>set bs. end' b \<le> snd (carveWindows c bs))"
proof (induction bs arbitrary: c)
  case Nil
  then show ?case by simp
next
  case (Cons b bs)
  have b: "proper b" "c \<le> start b"
    using Cons.prems by simp_all
  have ih: "end' b \<le> snd (carveWindows (end' b) bs)
            \<and> (\<forall>x\<in>set bs. end' x \<le> snd (carveWindows (end' b) bs))"
    using Cons.IH before_tail [OF Cons.prems] by blast
  show ?case
    unfolding carve_Cons [OF b] using ih b by (simp add: proper_def)
qed

lemma carve_windows_inside:
  "sorted_wrt before bs \<Longrightarrow> \<forall>b\<in>set bs. proper b \<and> c \<le> start b \<Longrightarrow>
     w \<in> set (fst (carveWindows c bs)) \<Longrightarrow>
     c \<le> start w \<and> proper w \<and> end' w \<le> snd (carveWindows c bs)"
proof (induction bs arbitrary: c)
  case Nil
  then show ?case by simp
next
  case (Cons b bs)
  have b: "proper b" "c \<le> start b"
    using Cons.prems by simp_all
  note tl = before_tail [OF Cons.prems(1,2)]
  have cur: "end' b \<le> snd (carveWindows (end' b) bs)"
    using carve_cursor tl by blast
  have w: "w \<in> set (if c < start b then [\<lparr>start = c, end' = start b\<rparr>] else [])
           \<or> w \<in> set (fst (carveWindows (end' b) bs))"
    using Cons.prems(3) unfolding carve_Cons [OF b] by simp
  then show ?case
  proof
    assume "w \<in> set (if c < start b then [\<lparr>start = c, end' = start b\<rparr>] else [])"
    then have "c < start b" "w = \<lparr>start = c, end' = start b\<rparr>"
      by (simp_all split: if_splits)
    then show ?thesis
      unfolding carve_Cons [OF b] using cur b by (simp add: proper_def)
  next
    assume "w \<in> set (fst (carveWindows (end' b) bs))"
    then have "end' b \<le> start w \<and> proper w \<and> end' w \<le> snd (carveWindows (end' b) bs)"
      using Cons.IH tl by blast
    then show ?thesis
      unfolding carve_Cons [OF b] using b by (simp add: proper_def)
  qed
qed

lemma carve_windows_before:
  "sorted_wrt before bs \<Longrightarrow> \<forall>b\<in>set bs. proper b \<and> c \<le> start b \<Longrightarrow>
     sorted_wrt before (fst (carveWindows c bs))"
proof (induction bs arbitrary: c)
  case Nil
  then show ?case by simp
next
  case (Cons b bs)
  have b: "proper b" "c \<le> start b"
    using Cons.prems by simp_all
  note tl = before_tail [OF Cons.prems(1,2)]
  have ih: "sorted_wrt before (fst (carveWindows (end' b) bs))"
    using Cons.IH tl by blast
  have ge: "\<forall>w\<in>set (fst (carveWindows (end' b) bs)). end' b \<le> start w"
    using carve_windows_inside tl by blast
  have "\<forall>w\<in>set (fst (carveWindows (end' b) bs)). before \<lparr>start = c, end' = start b\<rparr> w"
    using ge b by (fastforce simp add: before_def proper_def)
  then show ?case
    unfolding carve_Cons [OF b] using ih by simp
qed

lemma carve_windows_disj:
  "sorted_wrt before bs \<Longrightarrow> \<forall>b\<in>set bs. proper b \<and> c \<le> start b \<Longrightarrow>
     w \<in> set (fst (carveWindows c bs)) \<Longrightarrow> x \<in> set bs \<Longrightarrow> disj w x"
proof (induction bs arbitrary: c)
  case Nil
  then show ?case by simp
next
  case (Cons b bs)
  have b: "proper b" "c \<le> start b"
    using Cons.prems by simp_all
  note tl = before_tail [OF Cons.prems(1,2)]
  have w: "w \<in> set (if c < start b then [\<lparr>start = c, end' = start b\<rparr>] else [])
           \<or> w \<in> set (fst (carveWindows (end' b) bs))"
    using Cons.prems(3) unfolding carve_Cons [OF b] by simp
  then show ?case
  proof
    assume "w \<in> set (if c < start b then [\<lparr>start = c, end' = start b\<rparr>] else [])"
    then have "end' w = start b"
      by (simp split: if_splits)
    moreover have "x = b \<or> end' b \<le> start x"
      using Cons.prems(4) tl by auto
    ultimately show ?thesis
      using b by (auto simp add: disj_def proper_def)
  next
    assume in_rest: "w \<in> set (fst (carveWindows (end' b) bs))"
    then have "end' b \<le> start w"
      using carve_windows_inside tl by blast
    moreover have "x \<noteq> b \<longrightarrow> disj w x"
      using Cons.IH tl in_rest Cons.prems(4) by auto
    ultimately show ?thesis
      by (auto simp add: disj_def)
  qed
qed

lemma covers_simps:
  "covers [] t = False"
  "covers (x # xs) t = ((start x \<le> t \<and> t < end' x) \<or> covers xs t)"
  "covers (xs @ ys) t = (covers xs t \<or> covers ys t)"
  by (auto simp add: covers_def)

lemma carve_cover:
  "sorted_wrt before bs \<Longrightarrow> \<forall>b\<in>set bs. proper b \<and> c \<le> start b \<Longrightarrow>
     (covers (fst (carveWindows c bs)) t \<or> covers bs t) = (c \<le> t \<and> t < snd (carveWindows c bs))"
proof (induction bs arbitrary: c)
  case Nil
  then show ?case by (simp add: covers_simps)
next
  case (Cons b bs)
  have b: "proper b" "c \<le> start b"
    using Cons.prems by simp_all
  note tl = before_tail [OF Cons.prems(1,2)]
  have ih: "(covers (fst (carveWindows (end' b) bs)) t \<or> covers bs t)
            = (end' b \<le> t \<and> t < snd (carveWindows (end' b) bs))"
    using Cons.IH tl by blast
  have cur: "end' b \<le> snd (carveWindows (end' b) bs)"
    using carve_cursor tl by blast
  have "(covers (fst (carveWindows c (b # bs))) t \<or> covers (b # bs) t)
        = ((c \<le> t \<and> t < start b) \<or> (start b \<le> t \<and> t < end' b)
           \<or> (covers (fst (carveWindows (end' b) bs)) t \<or> covers bs t))"
    unfolding carve_Cons [OF b] by (auto simp add: covers_simps)
  also have "\<dots> = (c \<le> t \<and> t < snd (carveWindows (end' b) bs))"
    unfolding ih using b cur by (auto simp add: proper_def)
  finally show ?case
    unfolding carve_Cons [OF b] by simp
qed

lemma pickBlockLength_cases:
  "0 < pref \<Longrightarrow> pickBlockLength pref sl cp = 0
     \<or> (0 < pickBlockLength pref sl cp \<and> pickBlockLength pref sl cp \<le> sl
        \<and> pickBlockLength pref sl cp \<le> cp)"
  by (simp add: pickBlockLength_def MIN_BLOCK_MINUTES_def)

lemma fillWindow_stop:
  "cap \<le> m \<Longrightarrow> fillWindow pref cap names wend c m sc acc = Some (m, sc, acc)"
  by (subst fillWindow.simps) simp

lemma fillWindow_zero:
  "m < cap \<Longrightarrow> pickBlockLength pref (minutesBetweenDates c wend) (cap - m) = 0 \<Longrightarrow>
   fillWindow pref cap names wend c m sc acc = Some (m, sc, acc)"
  by (subst fillWindow.simps) simp

lemma fillWindow_step:
  "m < cap \<Longrightarrow> pickBlockLength pref (minutesBetweenDates c wend) (cap - m) = bl \<Longrightarrow> bl \<noteq> 0 \<Longrightarrow>
   fillWindow pref cap names wend c m sc acc =
     fillWindow pref cap names wend (c + bl) (m + bl) (sc + 1)
       (acc @ [studySession names sc c bl])"
  by (subst fillWindow.simps) (simp add: Let_def addMinutes_def)

lemma roundRobin_Suc:
  "roundRobin names c (Suc n) = (''Study '' @ subjectAt names c) # roundRobin names (Suc c) n"
proof -
  have "[c ..< c + Suc n] = c # [Suc c ..< Suc c + n]"
    using upt_conv_Cons [of c "c + Suc n"] by simp
  then show ?thesis
    unfolding roundRobin_def by simp
qed

lemma placedIn_Nil: "placedIn names ws c []"
  by (simp add: placedIn_def roundRobin_def)

lemma placedIn_Cons:
  assumes "proper s" "fitsIn ws s" "subjectId s = None" "completed s = False"
    and "title s = ''Study '' @ subjectAt names c"
    and "placedIn names ws (Suc c) ss"
    and "\<forall>x\<in>set ss. end' s \<le> start x"
  shows "placedIn names ws c (s # ss)"
proof -
  have "\<forall>x\<in>set ss. before s x"
    using assms(7) by (simp add: before_def)
  then show ?thesis
    using assms(1-6) by (simp add: placedIn_def roundRobin_Suc)
qed

lemma studyMinutes_session:
  "0 < bl \<Longrightarrow> studyMinutes (studySession names sc c bl # ss) = bl + studyMinutes ss"
  by (simp add: studyMinutes_def duration_def minutesBetweenDates_def studySession_def
      addMinutes_def)

lemma fillWindow_spec:
  assumes pref: "0 < pref"
  shows "\<exists>ss. fillWindow pref cap names wend c m sc acc
               = Some (m + studyMinutes ss, sc + length ss, acc @ ss)
           \<and> placedIn names [\<lparr>start = c, end' = wend\<rparr>] sc ss
           \<and> (m \<le> cap \<longrightarrow> m + studyMinutes ss \<le> cap)
           \<and> (cap \<le> m \<longrightarrow> ss = [])"
proof (induction "nat (cap - m)" arbitrary: c m sc acc rule: less_induct)
  case less
  let ?bl = "pickBlockLength pref (minutesBetweenDates c wend) (cap - m)"
  show ?case
  proof (cases "m < cap")
    case False
    then have "fillWindow pref cap names wend c m sc acc = Some (m, sc, acc)"
      by (simp add: fillWindow_stop)
    then have "fillWindow pref cap names wend c m sc acc
                 = Some (m + studyMinutes [], sc + length ([]::item list), acc @ [])
               \<and> placedIn names [\<lparr>start = c, end' = wend\<rparr>] sc []
               \<and> (m \<le> cap \<longrightarrow> m + studyMinutes ([]::item list) \<le> cap)
               \<and> (cap \<le> m \<longrightarrow> ([]::item list) = [])"
      by (simp add: studyMinutes_def placedIn_Nil)
    then show ?thesis by blast
  next
    case True
    show ?thesis
    proof (cases "?bl = 0")
      case z: True
      have "fillWindow pref cap names wend c m sc acc = Some (m, sc, acc)"
        using True z by (rule fillWindow_zero)
      then have "fillWindow pref cap names wend c m sc acc
                   = Some (m + studyMinutes [], sc + length ([]::item list), acc @ [])
                 \<and> placedIn names [\<lparr>start = c, end' = wend\<rparr>] sc []
                 \<and> (m \<le> cap \<longrightarrow> m + studyMinutes ([]::item list) \<le> cap)
                 \<and> (cap \<le> m \<longrightarrow> ([]::item list) = [])"
        using True by (simp add: studyMinutes_def placedIn_Nil)
      then show ?thesis by blast
    next
      case nz: False
      have bl: "0 < ?bl" "?bl \<le> minutesBetweenDates c wend" "?bl \<le> cap - m"
        using pickBlockLength_cases [OF pref, of "minutesBetweenDates c wend" "cap - m"] nz
        by auto
      have fits: "c + ?bl \<le> wend"
        using bl by (simp add: minutesBetweenDates_def)
      let ?s = "studySession names sc c ?bl"
      have "nat (cap - (m + ?bl)) < nat (cap - m)"
        using bl True by simp
      from less [OF this, of "c + ?bl" "sc + 1" "acc @ [?s]"]
      obtain ss where ss:
        "fillWindow pref cap names wend (c + ?bl) (m + ?bl) (sc + 1) (acc @ [?s])
           = Some (m + ?bl + studyMinutes ss, sc + 1 + length ss, (acc @ [?s]) @ ss)"
        "placedIn names [\<lparr>start = c + ?bl, end' = wend\<rparr>] (sc + 1) ss"
        "m + ?bl \<le> cap \<longrightarrow> m + ?bl + studyMinutes ss \<le> cap"
        by blast
      have s_simps: "start ?s = c" "end' ?s = c + ?bl" "subjectId ?s = None"
        "completed ?s = False" "title ?s = ''Study '' @ subjectAt names sc"
        by (simp_all add: studySession_def addMinutes_def)
      have dur: "studyMinutes (?s # ss) = ?bl + studyMinutes ss"
        using bl(1) by (rule studyMinutes_session)
      have run: "fillWindow pref cap names wend c m sc acc
                   = Some (m + studyMinutes (?s # ss), sc + length (?s # ss), acc @ (?s # ss))"
        using fillWindow_step [OF True refl nz, of names sc acc] ss(1) dur by simp
      have after: "\<forall>x\<in>set ss. end' ?s \<le> start x"
        using ss(2) by (auto simp add: placedIn_def fitsIn_def s_simps)
      have wider: "placedIn names [\<lparr>start = c, end' = wend\<rparr>] (Suc sc) ss"
        using ss(2) bl(1) by (auto simp add: placedIn_def fitsIn_def)
      have "placedIn names [\<lparr>start = c, end' = wend\<rparr>] sc (?s # ss)"
      proof (rule placedIn_Cons)
        show "proper ?s" using bl by (simp add: proper_def s_simps)
        show "fitsIn [\<lparr>start = c, end' = wend\<rparr>] ?s"
          using fits by (simp add: fitsIn_def s_simps)
      qed (use wider after in \<open>simp_all add: s_simps\<close>)
      moreover have "m \<le> cap \<longrightarrow> m + studyMinutes (?s # ss) \<le> cap"
        using ss(3) bl dur by simp
      moreover have "cap \<le> m \<longrightarrow> ?s # ss = []"
        using True by simp
      ultimately show ?thesis
        using run by blast
    qed
  qed
qed

lemma roundRobin_add:
  "roundRobin names c (n1 + n2) = roundRobin names c n1 @ roundRobin names (c + n1) n2"
proof -
  have "[c ..< c + (n1 + n2)] = [c ..< c + n1] @ [c + n1 ..< c + n1 + n2]"
    using upt_add_eq_append [of c "c + n1" n2] by (simp add: add.assoc)
  then show ?thesis
    unfolding roundRobin_def by simp
qed

lemma studyMinutes_append: "studyMinutes (xs @ ys) = studyMinutes xs + studyMinutes ys"
  by (simp add: studyMinutes_def)

lemma fitsIn_mono: "fitsIn ws x \<Longrightarrow> set ws \<subseteq> set ws' \<Longrightarrow> fitsIn ws' x"
  by (auto simp add: fitsIn_def)

lemma placedIn_mono: "placedIn names ws c ss \<Longrightarrow> set ws \<subseteq> set ws' \<Longrightarrow> placedIn names ws' c ss"
  unfolding placedIn_def using fitsIn_mono by blast

lemma placedIn_append:
  assumes 1: "placedIn names ws c xs" and 2: "placedIn names ws (c + length xs) ys"
    and cross: "\<forall>x\<in>set xs. \<forall>y\<in>set ys. before x y"
  shows "placedIn names ws c (xs @ ys)"
proof -
  have "sorted_wrt before (xs @ ys)"
    using 1 2 cross by (simp add: placedIn_def sorted_wrt_append)
  moreover have "map title (xs @ ys) = roundRobin names c (length (xs @ ys))"
    using 1 2 by (simp add: placedIn_def roundRobin_add)
  moreover have "\<forall>s\<in>set (xs @ ys). proper s \<and> fitsIn ws s \<and> subjectId s = None \<and> completed s = False"
    using 1 2 by (auto simp add: placedIn_def)
  ultimately show ?thesis
    by (simp only: placedIn_def)
qed

lemma slot_eta: "\<lparr>start = start (w::slot), end' = end' w\<rparr> = w"
  by (cases w) simp

lemma fillWindows_spec:
  assumes pref: "0 < pref"
  shows "sorted_wrt before ws \<Longrightarrow>
         \<exists>ss. fillWindows pref cap names ws m sc acc
               = Some (m + studyMinutes ss, sc + length ss, acc @ ss)
           \<and> placedIn names ws sc ss
           \<and> (m \<le> cap \<longrightarrow> m + studyMinutes ss \<le> cap)"
proof (induction ws arbitrary: m sc acc)
  case Nil
  have "fillWindows pref cap names [] m sc acc
          = Some (m + studyMinutes [], sc + length ([]::item list), acc @ [])
        \<and> placedIn names [] sc []
        \<and> (m \<le> cap \<longrightarrow> m + studyMinutes ([]::item list) \<le> cap)"
    by (simp add: studyMinutes_def placedIn_Nil)
  then show ?case by blast
next
  case (Cons w ws)
  obtain xs where xs:
    "fillWindow pref cap names (end' w) (start w) m sc acc
       = Some (m + studyMinutes xs, sc + length xs, acc @ xs)"
    "placedIn names [w] sc xs"
    "m \<le> cap \<longrightarrow> m + studyMinutes xs \<le> cap"
    using fillWindow_spec [OF pref, of cap names "end' w" "start w" m sc acc]
    by (auto simp add: slot_eta)
  have xs_in: "placedIn names (w # ws) sc xs"
    using xs(2) by (rule placedIn_mono) simp
  show ?case
  proof (cases "cap \<le> m + studyMinutes xs")
    case True
    then have "fillWindows pref cap names (w # ws) m sc acc
                 = Some (m + studyMinutes xs, sc + length xs, acc @ xs)"
      using xs(1) by simp
    then show ?thesis
      using xs_in xs(3) by blast
  next
    case False
    have tl: "sorted_wrt before ws" and hd: "\<forall>v\<in>set ws. before w v"
      using Cons.prems by simp_all
    obtain ys where ys:
      "fillWindows pref cap names ws (m + studyMinutes xs) (sc + length xs) (acc @ xs)
         = Some (m + studyMinutes xs + studyMinutes ys, sc + length xs + length ys,
                 (acc @ xs) @ ys)"
      "placedIn names ws (sc + length xs) ys"
      "m + studyMinutes xs \<le> cap \<longrightarrow> m + studyMinutes xs + studyMinutes ys \<le> cap"
      using Cons.IH [OF tl, of "m + studyMinutes xs" "sc + length xs" "acc @ xs"] by blast
    have run: "fillWindows pref cap names (w # ws) m sc acc
                 = Some (m + studyMinutes (xs @ ys), sc + length (xs @ ys), acc @ (xs @ ys))"
      using xs(1) ys(1) False by (simp add: studyMinutes_append add.assoc)
    have cross: "\<forall>x\<in>set xs. \<forall>y\<in>set ys. before x y"
    proof (intro ballI)
      fix x y
      assume x: "x \<in> set xs" and y: "y \<in> set ys"
      have "end' x \<le> end' w"
        using xs(2) x by (auto simp add: placedIn_def fitsIn_def)
      moreover obtain v where "v \<in> set ws" "start v \<le> start y"
        using ys(2) y by (auto simp add: placedIn_def fitsIn_def)
      moreover have "\<forall>v\<in>set ws. end' w \<le> start v"
        using hd by (simp add: before_def)
      ultimately show "before x y"
        by (fastforce simp add: before_def)
    qed
    have ys_in: "placedIn names (w # ws) (sc + length xs) ys"
      using ys(2) by (rule placedIn_mono) auto
    have "placedIn names (w # ws) sc (xs @ ys)"
      using xs_in ys_in cross by (rule placedIn_append)
    moreover have "m \<le> cap \<longrightarrow> m + studyMinutes (xs @ ys) \<le> cap"
      using xs(3) ys(3) unfolding studyMinutes_append by linarith
    ultimately show ?thesis
      using run by blast
  qed
qed

lemma fillWindows_stop:
  "cap \<le> m \<Longrightarrow> fillWindows pref cap names ws m sc acc = Some (m, sc, acc)"
  by (cases ws) (simp_all add: fillWindow_stop)

lemma fillWindows_append_stop:
  "fillWindows pref cap names ws1 m sc acc = Some (m', sc', acc') \<Longrightarrow> cap \<le> m' \<Longrightarrow>
   fillWindows pref cap names (ws1 @ ws2) m sc acc = Some (m', sc', acc')"
proof (induction ws1 arbitrary: m sc acc)
  case Nil
  then show ?case by (simp add: fillWindows_stop)
next
  case (Cons w ws1)
  then show ?case
    by (auto split: option.splits if_splits)
qed

lemma placed_disj:
  "sorted_wrt disj (concat (map (placeBreak b ws we) FIXED_BREAKS))"
  by (simp add: FIXED_BREAKS_def placeBreak_def Let_def disj_def setHours_def addDays_def)

lemma placed_inside:
  "x \<in> set (concat (map (placeBreak b ws we) FIXED_BREAKS)) \<Longrightarrow>
   ws \<le> start x \<and> proper x \<and> end' x \<le> we"
  by (auto simp add: FIXED_BREAKS_def placeBreak_def Let_def setHours_def addDays_def proper_def
      split: if_splits)

lemma breaks_inside:
  "b \<in> set (buildBreaksForDay anchor d ws we) \<Longrightarrow> ws \<le> start b \<and> proper b \<and> end' b \<le> we"
  unfolding buildBreaksForDay_def Let_def using placed_inside by simp

lemma breaks_before: "sorted_wrt before (buildBreaksForDay anchor d ws we)"
  unfolding buildBreaksForDay_def Let_def
  using placed_disj placed_inside by (intro sort_before) auto

lemma breaks_sorted: "sorted (map start (buildBreaksForDay anchor d ws we))"
  unfolding buildBreaksForDay_def Let_def by (rule sorted_sort_key)

lemma carve_cursor_le:
  "\<forall>b\<in>set bs. end' b \<le> E \<Longrightarrow> snd (carveWindows c bs) \<le> max c E"
proof (induction bs arbitrary: c)
  case Nil
  then show ?case by simp
next
  case (Cons b bs)
  let ?c1 = "if end' b > c then end' b else c"
  have "snd (carveWindows c (b # bs)) = snd (carveWindows ?c1 bs)"
    by (simp add: Let_def)
  moreover have "snd (carveWindows ?c1 bs) \<le> max ?c1 E"
    using Cons.IH Cons.prems by simp
  moreover have "max ?c1 E \<le> max c E"
    using Cons.prems by simp
  ultimately show ?case
    by linarith
qed

lemma placedBreaks_build: "placedBreaks ws we (buildBreaksForDay anchor d ws we)"
  unfolding placedBreaks_def using breaks_before breaks_inside by blast

lemma placedBreaks_carve:
  "placedBreaks S E bs \<Longrightarrow> sorted_wrt before bs \<and> (\<forall>b\<in>set bs. proper b \<and> S \<le> start b)"
  by (simp add: placedBreaks_def)

lemma placedBreaks_sort: "placedBreaks S E bs \<Longrightarrow> sort_key start bs = bs"
  by (simp add: placedBreaks_def before_sorted sort_key_id_if_sorted)

lemma candidate_unfold:
  "placedBreaks S E bs \<Longrightarrow>
   candidateWindows S E bs =
     fst (carveWindows S bs) @
       (if snd (carveWindows S bs) < E then [\<lparr>start = snd (carveWindows S bs), end' = E\<rparr>] else [])"
  by (simp add: candidateWindows_def Let_def placedBreaks_sort)

lemma candidate_inside:
  assumes pb: "placedBreaks S E bs" and w: "w \<in> set (candidateWindows S E bs)"
  shows "S \<le> start w \<and> proper w \<and> end' w \<le> E"
proof -
  note cv = placedBreaks_carve [OF pb]
  have cur: "S \<le> snd (carveWindows S bs)"
    using carve_cursor cv by blast
  have le: "snd (carveWindows S bs) \<le> max S E"
    using pb by (intro carve_cursor_le) (simp add: placedBreaks_def)
  have "w \<in> set (fst (carveWindows S bs))
        \<or> (snd (carveWindows S bs) < E \<and> w = \<lparr>start = snd (carveWindows S bs), end' = E\<rparr>)"
    using w unfolding candidate_unfold [OF pb] by (auto split: if_splits)
  then show ?thesis
  proof
    assume "w \<in> set (fst (carveWindows S bs))"
    then have "S \<le> start w \<and> proper w \<and> end' w \<le> snd (carveWindows S bs)"
      using carve_windows_inside cv by blast
    moreover have "start w < end' w \<longrightarrow> end' w \<le> snd (carveWindows S bs) \<longrightarrow> S \<le> start w
                   \<longrightarrow> end' w \<le> E"
      using le by (auto simp add: max_def split: if_splits)
    ultimately show ?thesis
      by (simp add: proper_def)
  next
    assume "snd (carveWindows S bs) < E \<and> w = \<lparr>start = snd (carveWindows S bs), end' = E\<rparr>"
    then show ?thesis
      using cur by (simp add: proper_def)
  qed
qed

lemma candidate_before:
  assumes pb: "placedBreaks S E bs"
  shows "sorted_wrt before (candidateWindows S E bs)"
proof -
  note cv = placedBreaks_carve [OF pb]
  have 1: "sorted_wrt before (fst (carveWindows S bs))"
    using carve_windows_before cv by blast
  have 2: "\<forall>w\<in>set (fst (carveWindows S bs)).
             before w \<lparr>start = snd (carveWindows S bs), end' = E\<rparr>"
    using carve_windows_inside cv by (fastforce simp add: before_def)
  show ?thesis
    unfolding candidate_unfold [OF pb] using 1 2 by (simp add: sorted_wrt_append)
qed

lemma candidate_disj:
  assumes pb: "placedBreaks S E bs" and w: "w \<in> set (candidateWindows S E bs)"
    and b: "b \<in> set bs"
  shows "disj w b"
proof -
  note cv = placedBreaks_carve [OF pb]
  have "w \<in> set (fst (carveWindows S bs))
        \<or> (snd (carveWindows S bs) < E \<and> w = \<lparr>start = snd (carveWindows S bs), end' = E\<rparr>)"
    using w unfolding candidate_unfold [OF pb] by (auto split: if_splits)
  then show ?thesis
  proof
    assume "w \<in> set (fst (carveWindows S bs))"
    then show ?thesis
      using carve_windows_disj cv b by blast
  next
    assume "snd (carveWindows S bs) < E \<and> w = \<lparr>start = snd (carveWindows S bs), end' = E\<rparr>"
    moreover have "end' b \<le> snd (carveWindows S bs)"
      using carve_cursor cv b by blast
    ultimately show ?thesis
      by (simp add: disj_def)
  qed
qed

lemma candidate_cover:
  assumes pb: "placedBreaks S E bs"
  shows "(covers (candidateWindows S E bs) t \<or> covers bs t) = (S \<le> t \<and> t < E)"
proof -
  note cv = placedBreaks_carve [OF pb]
  let ?c = "snd (carveWindows S bs)"
  have cur: "S \<le> ?c"
    using carve_cursor cv by blast
  have le: "?c \<le> max S E"
    using pb by (intro carve_cursor_le) (simp add: placedBreaks_def)
  have base: "(covers (fst (carveWindows S bs)) t \<or> covers bs t) = (S \<le> t \<and> t < ?c)"
    using carve_cover cv by blast
  have "(covers (candidateWindows S E bs) t \<or> covers bs t)
        = ((covers (fst (carveWindows S bs)) t \<or> covers bs t) \<or> (?c < E \<and> ?c \<le> t \<and> t < E))"
    unfolding candidate_unfold [OF pb] by (auto simp add: covers_simps)
  also have "\<dots> = ((S \<le> t \<and> t < ?c) \<or> (?c < E \<and> ?c \<le> t \<and> t < E))"
    unfolding base by simp
  also have "\<dots> = (S \<le> t \<and> t < E)"
    using cur le by (auto simp add: max_def split: if_splits)
  finally show ?thesis .
qed

lemma foldl_sum:
  "foldl (\<lambda>sum s. sum + f s) a xs = a + sum_list (map f xs)"
  by (induction xs arbitrary: a) (simp_all add: add.assoc)

lemma availableMinutes_sum: "availableMinutes ws = studyMinutes ws"
  unfolding availableMinutes_def studyMinutes_def duration_def by (simp add: foldl_sum)

lemma studyMinutes_nonneg: "0 \<le> studyMinutes xs"
  unfolding studyMinutes_def duration_def minutesBetweenDates_def
  by (induction xs) simp_all

lemma toLowerCase_append: "toLowerCase (a @ b) = toLowerCase a @ toLowerCase b"
  by (simp add: toLowerCase_def)

lemma lower_Study: "toLowerCase ''Study '' = ''study ''"
  by code_simp

lemma isStudy_session: "title it = ''Study '' @ n \<Longrightarrow> isStudyItem it"
proof -
  assume "title it = ''Study '' @ n"
  then have "toLowerCase (title it) = ''study '' @ toLowerCase n"
    by (simp only: toLowerCase_append lower_Study)
  then show ?thesis
    by (simp add: isStudyItem_def startsWith_def)
qed

lemma break_titles_not_study:
  "\<not> startsWith (toLowerCase ''Lunch Break'') ''study''"
  "\<not> startsWith (toLowerCase ''Snack Break'') ''study''"
  "\<not> startsWith (toLowerCase ''Dinner Break'') ''study''"
  by code_simp+

lemma placed_titles:
  "b \<in> set (concat (map (placeBreak base ws we) FIXED_BREAKS)) \<Longrightarrow>
   title b = ''Lunch Break'' \<or> title b = ''Snack Break'' \<or> title b = ''Dinner Break''"
  by (auto simp add: FIXED_BREAKS_def placeBreak_def Let_def split: if_splits)

lemma breakItem_simps:
  "start (breakItem b) = start b" "end' (breakItem b) = end' b" "title (breakItem b) = title b"
  "subjectId (breakItem b) = None" "completed (breakItem b) = False"
  by (simp_all add: breakItem_def)

lemma not_study_break:
  "b \<in> set (buildBreaksForDay anchor d ws we) \<Longrightarrow> \<not> isStudyItem (breakItem b)"
proof -
  assume "b \<in> set (buildBreaksForDay anchor d ws we)"
  then have "title b = ''Lunch Break'' \<or> title b = ''Snack Break'' \<or> title b = ''Dinner Break''"
    unfolding buildBreaksForDay_def Let_def using placed_titles by simp
  then show ?thesis
    unfolding isStudyItem_def breakItem_simps using break_titles_not_study by auto
qed

lemma choosePreferred_pos:
  "choosePreferredBlockMinutes av n \<noteq> 0 \<Longrightarrow> 0 < choosePreferredBlockMinutes av n"
  by (simp add: choosePreferredBlockMinutes_def MIN_BLOCK_MINUTES_def MAX_BLOCK_MINUTES_def
      Let_def split: if_splits)

lemma dayBreaks_placed:
  "placedBreaks (fst (dayWindow a d)) (snd (dayWindow a d)) (dayBreaks a d)"
  unfolding dayBreaks_def by (rule placedBreaks_build)

lemma dayWindows_subset:
  "set (dayWindows a d)
     \<subseteq> set (candidateWindows (fst (dayWindow a d)) (snd (dayWindow a d)) (dayBreaks a d))"
  by (simp add: dayWindows_def buildStudyWindows_def)

lemma dayWindows_before: "sorted_wrt before (dayWindows a d)"
  unfolding dayWindows_def buildStudyWindows_def
  by (intro sorted_wrt_filter candidate_before dayBreaks_placed)

lemma dayWindows_disj:
  "w \<in> set (dayWindows a d) \<Longrightarrow> b \<in> set (dayBreaks a d) \<Longrightarrow> disj w b"
  using candidate_disj [OF dayBreaks_placed] dayWindows_subset by blast

lemma daySessions_spec:
  "\<exists>ss. daySessions a d sc = Some (ss, sc + length ss)
     \<and> placedIn (subjectNames a) (dayWindows a d) sc ss
     \<and> (0 \<le> maxStudyMinutesPerDay a \<longrightarrow>
          studyMinutes ss \<le> min (maxStudyMinutesPerDay a) (availableMinutes (dayWindows a d)))"
proof -
  let ?ws = "dayWindows a d"
  let ?av = "availableMinutes ?ws"
  let ?pref = "choosePreferredBlockMinutes ?av (int (length (subjectNames a)))"
  let ?cap = "min (maxStudyMinutesPerDay a) ?av"
  have av: "0 \<le> ?av"
    by (simp add: availableMinutes_sum studyMinutes_nonneg)
  have none: "placedIn (subjectNames a) ?ws sc []
              \<and> (0 \<le> maxStudyMinutesPerDay a \<longrightarrow> studyMinutes ([]::item list) \<le> ?cap)"
    using av by (simp add: placedIn_Nil studyMinutes_def)
  show ?thesis
  proof (cases "?av = 0 \<or> ?pref = 0")
    case True
    then have "daySessions a d sc = Some ([], sc + length ([]::item list))"
      by (auto simp add: daySessions_def Let_def)
    then show ?thesis
      using none by blast
  next
    case False
    then have pos: "0 < ?pref"
      using choosePreferred_pos by blast
    obtain ss where ss:
      "fillWindows ?pref ?cap (subjectNames a) ?ws 0 sc []
         = Some (0 + studyMinutes ss, sc + length ss, [] @ ss)"
      "placedIn (subjectNames a) ?ws sc ss"
      "0 \<le> ?cap \<longrightarrow> 0 + studyMinutes ss \<le> ?cap"
      using fillWindows_spec [OF pos dayWindows_before, of ?cap "subjectNames a" a d 0 sc "[]"]
      by blast
    have "daySessions a d sc = Some (ss, sc + length ss)"
      using False ss(1) by (simp add: daySessions_def Let_def)
    moreover have "0 \<le> maxStudyMinutesPerDay a \<longrightarrow> studyMinutes ss \<le> ?cap"
      using ss(3) av by simp
    ultimately show ?thesis
      using ss(2) by blast
  qed
qed

lemma length_roundRobin: "length (roundRobin names c n) = n"
  by (simp add: roundRobin_def)

lemma placedIn_study:
  assumes "placedIn names ws c ss" and "s \<in> set ss"
  shows "isStudyItem s"
proof -
  have "map title ss = roundRobin names c (length ss)"
    using assms(1) by (simp add: placedIn_def)
  moreover have "title s \<in> set (map title ss)"
    using assms(2) by simp
  ultimately have "title s \<in> set (roundRobin names c (length ss))"
    by simp
  then obtain k where "title s = ''Study '' @ subjectAt names k"
    by (auto simp add: roundRobin_def)
  then show ?thesis
    by (rule isStudy_session)
qed

lemma dayBreaks_not_study: "b \<in> set (dayBreaks a d) \<Longrightarrow> \<not> isStudyItem (breakItem b)"
  unfolding dayBreaks_def by (rule not_study_break)

lemma merged_study:
  assumes p: "placedIn names (dayWindows a d) c ss"
  shows "filter isStudyItem (sort_key start (ss @ map breakItem (dayBreaks a d))) = ss"
proof -
  have 1: "filter isStudyItem ss = ss"
    using placedIn_study [OF p] by simp
  have 2: "filter isStudyItem (map breakItem (dayBreaks a d)) = []"
    using dayBreaks_not_study by (simp add: filter_empty_conv)
  have 3: "sorted (map start ss)"
    using p by (intro before_sorted) (simp_all add: placedIn_def)
  show ?thesis
    by (simp add: filter_sort 1 2 3 sort_key_id_if_sorted)
qed

lemma merged_before:
  assumes p: "placedIn names (dayWindows a d) c ss"
  shows "sorted_wrt before (sort_key start (ss @ map breakItem (dayBreaks a d)))"
proof (rule sort_before)
  note pb = dayBreaks_placed [of a d]
  have 1: "sorted_wrt disj ss"
    using p by (intro before_disj) (simp add: placedIn_def)
  have "sorted_wrt before (dayBreaks a d)"
    using pb by (simp add: placedBreaks_def)
  moreover have "\<And>x y. before x y \<Longrightarrow> disj (breakItem x) (breakItem y)"
    by (simp add: before_def disj_def breakItem_simps)
  ultimately have "sorted_wrt (\<lambda>x y. disj (breakItem x) (breakItem y)) (dayBreaks a d)"
    by (rule sorted_wrt_mono_rel [rotated]) blast
  then have 2: "sorted_wrt disj (map breakItem (dayBreaks a d))"
    by (simp add: sorted_wrt_map)
  have 3: "\<forall>s\<in>set ss. \<forall>b\<in>set (dayBreaks a d). disj s (breakItem b)"
  proof (intro ballI)
    fix s b
    assume s: "s \<in> set ss" and b: "b \<in> set (dayBreaks a d)"
    obtain w where w: "w \<in> set (dayWindows a d)" "start w \<le> start s" "end' s \<le> end' w"
      using p s by (auto simp add: placedIn_def fitsIn_def)
    have "disj w b"
      using w(1) b by (rule dayWindows_disj)
    then show "disj s (breakItem b)"
      using w(2,3) by (auto simp add: disj_def breakItem_simps)
  qed
  show "sorted_wrt disj (ss @ map breakItem (dayBreaks a d))"
    using 1 2 3 by (simp add: sorted_wrt_append)
  have 4: "\<forall>x\<in>set ss. proper x"
    using p by (simp add: placedIn_def)
  have "\<forall>b\<in>set (dayBreaks a d). proper b"
    using pb by (simp add: placedBreaks_def)
  then have 5: "\<forall>b\<in>set (dayBreaks a d). proper (breakItem b)"
    by (simp add: proper_def breakItem_simps)
  show "\<forall>x\<in>set (ss @ map breakItem (dayBreaks a d)). proper x"
    using 4 5 by auto
qed

lemma dayBreaks_sorted: "sort_key start (map breakItem (dayBreaks a d)) = map breakItem (dayBreaks a d)"
proof -
  have "sorted (map start (dayBreaks a d))"
    unfolding dayBreaks_def by (rule breaks_sorted)
  moreover have "map start (map breakItem (dayBreaks a d)) = map start (dayBreaks a d)"
    by (simp add: breakItem_simps)
  ultimately show ?thesis
    by (simp only: sort_key_id_if_sorted)
qed

lemma planDay_sessions:
  "planDay a d sc =
     (case daySessions a d sc of
        None \<Rightarrow> None
      | Some (ss, c) \<Rightarrow> Some (sort_key start (ss @ map breakItem (dayBreaks a d)), c))"
  unfolding planDay_def daySessions_def Let_def
  by (simp add: dayBreaks_sorted split: option.splits)

lemma planDay_spec:
  "\<exists>ss. planDay a d sc = Some (sort_key start (ss @ map breakItem (dayBreaks a d)), sc + length ss)
     \<and> placedIn (subjectNames a) (dayWindows a d) sc ss"
proof -
  obtain ss where "daySessions a d sc = Some (ss, sc + length ss)"
    "placedIn (subjectNames a) (dayWindows a d) sc ss"
    using daySessions_spec by blast
  then have "planDay a d sc
               = Some (sort_key start (ss @ map breakItem (dayBreaks a d)), sc + length ss)
             \<and> placedIn (subjectNames a) (dayWindows a d) sc ss"
    by (simp add: planDay_sessions)
  then show ?thesis ..
qed

lemma planDays_spec:
  "\<exists>new. planDays a ds sc items = Some (items @ new)
     \<and> studyTitles new = roundRobin (subjectNames a) sc (length (studyTitles new))
     \<and> (\<forall>it\<in>set new. subjectId it = None \<and> completed it = False)"
proof (induction ds arbitrary: sc items)
  case Nil
  have "planDays a [] sc items = Some (items @ [])
     \<and> studyTitles [] = roundRobin (subjectNames a) sc (length (studyTitles []))
     \<and> (\<forall>it\<in>set ([]::item list). subjectId it = None \<and> completed it = False)"
    by (simp add: studyTitles_def roundRobin_def)
  then show ?case by blast
next
  case (Cons d ds)
  let ?bs = "map breakItem (dayBreaks a d)"
  obtain ss where ss:
    "planDay a d sc = Some (sort_key start (ss @ ?bs), sc + length ss)"
    "placedIn (subjectNames a) (dayWindows a d) sc ss"
    using planDay_spec by blast
  let ?day = "sort_key start (ss @ ?bs)"
  obtain new where new:
    "planDays a ds (sc + length ss) (items @ ?day) = Some ((items @ ?day) @ new)"
    "studyTitles new = roundRobin (subjectNames a) (sc + length ss) (length (studyTitles new))"
    "\<forall>it\<in>set new. subjectId it = None \<and> completed it = False"
    using Cons.IH by blast
  have run: "planDays a (d # ds) sc items = Some (items @ (?day @ new))"
    using ss(1) new(1) by simp
  have day_titles: "studyTitles ?day = roundRobin (subjectNames a) sc (length ss)"
    using ss(2) by (simp add: studyTitles_def merged_study placedIn_def)
  have len: "length (studyTitles ?day) = length ss"
    using ss(2) by (simp add: studyTitles_def merged_study)
  have "studyTitles (?day @ new) = studyTitles ?day @ studyTitles new"
    by (simp add: studyTitles_def)
  also have "\<dots> = roundRobin (subjectNames a) sc (length ss)
                   @ roundRobin (subjectNames a) (sc + length ss) (length (studyTitles new))"
    using day_titles new(2) by simp
  also have "\<dots> = roundRobin (subjectNames a) sc (length ss + length (studyTitles new))"
    by (simp add: roundRobin_add)
  finally have eq: "studyTitles (?day @ new)
      = roundRobin (subjectNames a) sc (length ss + length (studyTitles new))" .
  have "length (studyTitles (?day @ new)) = length ss + length (studyTitles new)"
    unfolding eq by (rule length_roundRobin)
  then have titles: "studyTitles (?day @ new)
      = roundRobin (subjectNames a) sc (length (studyTitles (?day @ new)))"
    using eq by simp
  have "\<forall>it\<in>set ss. subjectId it = None \<and> completed it = False"
    using ss(2) by (simp add: placedIn_def)
  then have "\<forall>it\<in>set ?day. subjectId it = None \<and> completed it = False"
    by (auto simp add: breakItem_simps)
  then have ids: "\<forall>it\<in>set (?day @ new). subjectId it = None \<and> completed it = False"
    using new(3) by auto
  show ?case
    by (intro exI [of _ "?day @ new"] conjI run titles ids)
qed

section \<open>Windows, breaks and free slots\<close>

lemma placeBreak_shift:
  "placeBreak (setHours x 0 0) ws we b =
     filter (\<lambda>c. ws \<le> start c \<and> end' c \<le> we) [shiftBreak ws (candidateBreak (setHours x 0 0) b)]"
  by (cases b) (simp add: placeBreak_def candidateBreak_def shiftBreak_def Let_def setHours_def
      addDays_def)

lemma concat_map_filter_single:
  "concat (map (\<lambda>b. filter P [f b]) xs) = filter P (map f xs)"
  by (induction xs) simp_all

lemma buildBreaks_shift:
  "buildBreaksForDay anchor d ws we =
     sort_key start (filter (\<lambda>c. ws \<le> start c \<and> end' c \<le> we)
       (map (\<lambda>b. shiftBreak ws (candidateBreak (setHours (addDays anchor d) 0 0) b)) FIXED_BREAKS))"
  unfolding buildBreaksForDay_def Let_def placeBreak_shift concat_map_filter_single ..

lemma setHours_eq: "setHours x h m = 1440 * (x div 1440) + h * 60 + m"
  by (simp add: setHours_def minus_mod_eq_mult_div)

lemma midnight_of:
  "0 \<le> k \<Longrightarrow> k < 1440 \<Longrightarrow> setHours (setHours x 0 0 + k) 0 0 = setHours x 0 0"
  "0 \<le> k \<Longrightarrow> k < 1440 \<Longrightarrow> setHours (setHours x 0 0 + 1440 + k) 0 0 = setHours x 0 0 + 1440"
proof -
  assume k: "0 \<le> k" "k < 1440"
  have "(1440 * (x div 1440) + k) div 1440 = x div 1440"
    using k by simp
  then show "setHours (setHours x 0 0 + k) 0 0 = setHours x 0 0"
    by (simp add: setHours_eq)
  have "(1440 * (x div 1440) + 1440 + k) div 1440 = x div 1440 + 1"
    using k div_mult_self2 [of 1440 k "x div 1440 + 1"] by (simp add: algebra_simps)
  then show "setHours (setHours x 0 0 + 1440 + k) 0 0 = setHours x 0 0 + 1440"
    by (simp add: setHours_eq)
qed

lemma window_2200_0600:
  "getDailyWindow anchor d \<lparr>hours = 22, minutes = 0\<rparr> \<lparr>hours = 6, minutes = 0\<rparr>
     = (setHours (addDays anchor d) 0 0 + 1320, setHours (addDays anchor d) 0 0 + 1440 + 360)"
  by (simp add: getDailyWindow_def Let_def setHours_def addDays_def)

lemma wrap_next_day:
  "setHours (snd (getDailyWindow anchor d \<lparr>hours = 22, minutes = 0\<rparr> \<lparr>hours = 6, minutes = 0\<rparr>)) 0 0
     = addDays (setHours (fst (getDailyWindow anchor d \<lparr>hours = 22, minutes = 0\<rparr>
                                  \<lparr>hours = 6, minutes = 0\<rparr>)) 0 0) 1"
proof -
  let ?day = "setHours (addDays anchor d) 0 0"
  have 1: "setHours (?day + 1320) 0 0 = ?day"
    using midnight_of(1) [of 1320 "addDays anchor d"] by simp
  have 2: "setHours (?day + 1440 + 360) 0 0 = ?day + 1440"
    using midnight_of(2) [of 360 "addDays anchor d"] by simp
  show ?thesis
    unfolding window_2200_0600 fst_conv snd_conv 1 2 by (simp add: addDays_def)
qed

lemma covers_filter_split:
  "covers xs t = (covers (filter P xs) t \<or> covers (filter (\<lambda>x. \<not> P x) xs) t)"
  by (auto simp add: covers_def)

lemma before_unique:
  assumes "sorted_wrt before xs" and "\<forall>x\<in>set xs. proper x"
    and "x \<in> set xs" "y \<in> set xs"
    and "start x \<le> t" "t < end' x" "start y \<le> t" "t < end' y"
  shows "x = y"
  using assms
proof (induction xs)
  case Nil
  then show ?case by simp
next
  case (Cons a xs)
  have later: "\<forall>z\<in>set xs. end' a \<le> start z"
    using Cons.prems(1) by (simp add: before_def)
  show ?case
  proof (cases "x = a \<or> y = a")
    case True
    then show ?thesis
      using later Cons.prems(3-8) by auto
  next
    case False
    then show ?thesis
      using Cons by auto
  qed
qed

lemma dayWindows_filter:
  "dayWindows a d =
     filter (\<lambda>s. \<not> minutesBetweenDates (start s) (end' s) < MIN_BLOCK_MINUTES)
       (candidateWindows (fst (dayWindow a d)) (snd (dayWindow a d)) (dayBreaks a d))"
  by (simp add: dayWindows_def buildStudyWindows_def not_less)

lemma window_valid:
  "validTime st \<and> validTime et \<longrightarrow>
     fst (getDailyWindow anchor d st et)
       = setHours (addDays anchor d) 0 0 + (hours st * 60 + minutes st)
     \<and> snd (getDailyWindow anchor d st et)
       = setHours (addDays anchor d) 0 0 + (hours et * 60 + minutes et)
         + (if hours et * 60 + minutes et \<le> hours st * 60 + minutes st then 1440 else 0)
     \<and> fst (getDailyWindow anchor d st et) < snd (getDailyWindow anchor d st et)"
  by (auto simp add: validTime_def getDailyWindow_def Let_def setHours_def addDays_def)

section \<open>Days and plans\<close>

lemma midnight_mod: "setHours x 0 0 mod 1440 = 0"
  by (simp add: setHours_eq)

lemma window_0900_1700:
  "B mod 1440 = 0 \<Longrightarrow>
   getDailyWindow B 0 \<lparr>hours = 9, minutes = 0\<rparr> \<lparr>hours = 17, minutes = 0\<rparr> = (B + 540, B + 1020)"
  by (simp add: getDailyWindow_def Let_def setHours_def addDays_def)

lemma breaks_0900_1700:
  "B mod 1440 = 0 \<Longrightarrow>
   buildBreaksForDay B 0 (B + 540) (B + 1020)
     = [\<lparr>start = B + 780, end' = B + 840, title = ''Lunch Break''\<rparr>]"
  by (simp add: buildBreaksForDay_def FIXED_BREAKS_def placeBreak_def Let_def setHours_def
      addDays_def)

lemma windows_0900_1700:
  "buildStudyWindows (B + 540) (B + 1020)
     [\<lparr>start = B + 780, end' = B + 840, title = ''Lunch Break''\<rparr>]
   = [\<lparr>start = B + 540, end' = B + 780\<rparr>, \<lparr>start = B + 840, end' = B + 1020\<rparr>]"
  by (simp add: buildStudyWindows_def candidateWindows_def Let_def minutesBetweenDates_def
      MIN_BLOCK_MINUTES_def)

lemma mod_three_two: "Suc (Suc (Suc 0)) mod Suc (Suc 0) = Suc 0"
  by (simp add: mod_Suc)

lemma fill_0900_1700:
  "fillWindows 120 420 [''Math'', ''Physics'']
     [\<lparr>start = B + 540, end' = B + 780\<rparr>, \<lparr>start = B + 840, end' = B + 1020\<rparr>] 0 0 []
   = Some (420, 4,
       [\<lparr>start = B + 540, end' = B + 660, title = ''Study Math'', subjectId = None,
          completed = False\<rparr>,
        \<lparr>start = B + 660, end' = B + 780, title = ''Study Physics'', subjectId = None,
          completed = False\<rparr>,
        \<lparr>start = B + 840, end' = B + 960, title = ''Study Math'', subjectId = None,
          completed = False\<rparr>,
        \<lparr>start = B + 960, end' = B + 1020, title = ''Study Physics'', subjectId = None,
          completed = False\<rparr>])"
  by (simp add: fillWindow.simps Let_def pickBlockLength_def minutesBetweenDates_def
      MIN_BLOCK_MINUTES_def studySession_def addMinutes_def subjectAt_def mod_three_two)

lemma daySessions_eval:
  assumes "dayWindows a d = ws" "availableMinutes ws = av"
    and "choosePreferredBlockMinutes av (int (length (subjectNames a))) = pref"
    and "fillWindows pref (min (maxStudyMinutesPerDay a) av) (subjectNames a) ws 0 sc []
           = Some (m, sc', ss)"
    and "av \<noteq> 0" "pref \<noteq> 0"
  shows "daySessions a d sc = Some (ss, sc')"
  using assms by (simp add: daySessions_def Let_def)

lemma planDay_eval:
  "daySessions a d sc = Some (ss, sc') \<Longrightarrow> dayBreaks a d = bs \<Longrightarrow>
   planDay a d sc = Some (sort_key start (ss @ map breakItem bs), sc')"
  by (simp add: planDay_sessions)

lemma plan_one_day:
  "totalDays a = 1 \<Longrightarrow> planDay a 0 0 = Some (items, sc') \<Longrightarrow>
   buildStructuredPlan a = Some items"
  by (simp add: buildStructuredPlan_def)

lemma proper_before_strict: "proper x \<Longrightarrow> before x y \<Longrightarrow> strictlyBefore x y"
  by (simp add: proper_def before_def strictlyBefore_def)

lemma merged_proper:
  assumes p: "placedIn names (dayWindows a d) c ss"
  shows "\<forall>x\<in>set (sort_key start (ss @ map breakItem (dayBreaks a d))). proper x"
proof -
  have 1: "\<forall>x\<in>set ss. proper x"
    using p by (simp add: placedIn_def)
  have "\<forall>b\<in>set (dayBreaks a d). proper b"
    using dayBreaks_placed [of a d] by (simp add: placedBreaks_def)
  then have 2: "\<forall>b\<in>set (dayBreaks a d). proper (breakItem b)"
    by (simp add: proper_def breakItem_simps)
  show ?thesis
    using 1 2 by auto
qed

lemma round_robin_general:
  "\<exists>items. buildStructuredPlan a = Some items
     \<and> studyTitles items = roundRobin (subjectNames a) 0 (length (studyTitles items))"
proof -
  obtain new where "planDays a [0 ..< totalDays a] 0 [] = Some ([] @ new)"
    "studyTitles new = roundRobin (subjectNames a) 0 (length (studyTitles new))"
    using planDays_spec [of a "[0 ..< totalDays a]" 0 "[]"] by blast
  then show ?thesis
    by (simp add: buildStructuredPlan_def)
qed

lemma startsWith_Study: "startsWith (''Study '' @ n) ''Study''"
  by (simp add: startsWith_def)

lemma break_titles_prefix:
  "\<not> startsWith ''Lunch Break'' ''Study''"
  "\<not> startsWith ''Snack Break'' ''Study''"
  "\<not> startsWith ''Dinner Break'' ''Study''"
  by (simp_all add: startsWith_def)

lemma placedIn_title:
  assumes "placedIn names ws c ss" and "s \<in> set ss"
  shows "\<exists>k. title s = ''Study '' @ subjectAt names k"
proof -
  have "map title ss = roundRobin names c (length ss)"
    using assms(1) by (simp add: placedIn_def)
  moreover have "title s \<in> set (map title ss)"
    using assms(2) by simp
  ultimately have "title s \<in> set (roundRobin names c (length ss))"
    by simp
  then show ?thesis
    by (auto simp add: roundRobin_def)
qed

lemma three_subjects:
  "map_option studyTitles (buildStructuredPlan \<lparr>anchorDate = 0, subjectNames = [''A'', ''B'', ''C''], totalDays = 2,
      startTime = \<lparr>hours = 8, minutes = 0\<rparr>, endTime = \<lparr>hours = 17, minutes = 0\<rparr>,
      maxStudyMinutesPerDay = 480\<rparr>)
   = Some [''Study A'', ''Study B'', ''Study C'', ''Study A'', ''Study B'',
           ''Study C'', ''Study A'', ''Study B'', ''Study C'', ''Study A'']"
  by code_simp

lemma three_subjects_day0:
  "map_option (\<lambda>r. (studyTitles (fst r), snd r)) (planDay \<lparr>anchorDate = 0, subjectNames = [''A'', ''B'', ''C''], totalDays = 2,
      startTime = \<lparr>hours = 8, minutes = 0\<rparr>, endTime = \<lparr>hours = 17, minutes = 0\<rparr>,
      maxStudyMinutesPerDay = 480\<rparr> 0 0)
   = Some ([''Study A'', ''Study B'', ''Study C'', ''Study A'', ''Study B''], 5)"
  by code_simp

lemma three_subjects_day1:
  "map_option (\<lambda>r. (studyTitles (fst r), snd r)) (planDay \<lparr>anchorDate = 0, subjectNames = [''A'', ''B'', ''C''], totalDays = 2,
      startTime = \<lparr>hours = 8, minutes = 0\<rparr>, endTime = \<lparr>hours = 17, minutes = 0\<rparr>,
      maxStudyMinutesPerDay = 480\<rparr> 1 5)
   = Some ([''Study C'', ''Study A'', ''Study B'', ''Study C'', ''Study A''], 10)"
  by code_simp

section \<open>The time parser\<close>

lemma split_nonempty: "split s sep \<noteq> []"
  by (induction s) (auto split: list.splits)

lemma split_unfold:
  "split s sep =
     takeWhile (\<lambda>c. c \<noteq> sep) s
       # (if sep \<in> set s then split (tl (dropWhile (\<lambda>c. c \<noteq> sep) s)) sep else [])"
proof (induction s)
  case Nil
  then show ?case by simp
next
  case (Cons c cs)
  then show ?case
    by (cases "c = sep") (simp_all add: split_nonempty)
qed

lemma element_hours: "element (split s (CHR '':'')) 0 = Some (hourComponent s)"
  by (subst split_unfold) (simp add: element_def hourComponent_def)

lemma split_hd:
  "\<exists>rest. split s sep = takeWhile (\<lambda>c. c \<noteq> sep) s # rest"
  using split_unfold [of s sep] by blast

lemma element_minutes: "element (split s (CHR '':'')) (Suc 0) = minuteComponent s"
proof (cases "CHR '':'' \<in> set s")
  case True
  let ?rest = "tl (dropWhile (\<lambda>c. c \<noteq> CHR '':'') s)"
  have "split s (CHR '':'') = hourComponent s # split ?rest (CHR '':'')"
    using True by (subst split_unfold) (simp add: hourComponent_def)
  moreover obtain more where "split ?rest (CHR '':'')
      = takeWhile (\<lambda>c. c \<noteq> CHR '':'') ?rest # more"
    using split_hd by blast
  ultimately show ?thesis
    using True by (simp add: element_def minuteComponent_def)
next
  case False
  then have "split s (CHR '':'') = [hourComponent s]"
    by (subst split_unfold) (simp add: hourComponent_def)
  then show ?thesis
    using False by (simp add: element_def minuteComponent_def)
qed

lemma parseTimeString_string:
  "parseTimeString stringToNumber (JString s) =
     (if Number stringToNumber (Some (hourComponent s)) = NaN
         \<or> Number stringToNumber (minuteComponent s) = NaN
         \<or> numLess (Number stringToNumber (Some (hourComponent s))) (Fin 0)
         \<or> numLess (Fin 23) (Number stringToNumber (Some (hourComponent s)))
         \<or> numLess (Number stringToNumber (minuteComponent s)) (Fin 0)
         \<or> numLess (Fin 59) (Number stringToNumber (minuteComponent s))
      then Inl (Error (''Invalid time format: '' @ s))
      else Inr \<lparr>hours = Number stringToNumber (Some (hourComponent s)),
               minutes = Number stringToNumber (minuteComponent s)\<rparr>)"
  by (simp add: parseTimeString_def Let_def element_hours element_minutes)

lemma parseTimeString_other:
  "\<not> isString v \<Longrightarrow>
   parseTimeString stringToNumber v = Inl (Error ''Time must be in HH:MM format'')"
  by (cases v) (simp_all add: isString_def parseTimeString_def)

lemma parseTimeString_missing_minutes:
  "CHR '':'' \<notin> set s \<Longrightarrow>
   parseTimeString stringToNumber (JString s) = Inl (Error (''Invalid time format: '' @ s))"
  by (simp add: parseTimeString_string minuteComponent_def Number_def)

lemma parseTimeString_in_range:
  assumes "parseTimeString stringToNumber v = Inr t"
  shows "\<exists>h m. hours t = Fin h \<and> minutes t = Fin m \<and> 0 \<le> h \<and> h \<le> 23 \<and> 0 \<le> m \<and> m \<le> 59"
proof -
  have "isString v"
    using assms parseTimeString_other [of v stringToNumber] by auto
  then obtain s where s: "v = JString s"
    by (cases v) (simp_all add: isString_def)
  let ?h = "Number stringToNumber (Some (hourComponent s))"
  let ?m = "Number stringToNumber (minuteComponent s)"
  have ok: "?h \<noteq> NaN" "?m \<noteq> NaN" "\<not> numLess ?h (Fin 0)" "\<not> numLess (Fin 23) ?h"
    "\<not> numLess ?m (Fin 0)" "\<not> numLess (Fin 59) ?m" and t: "t = \<lparr>hours = ?h, minutes = ?m\<rparr>"
    using assms unfolding s parseTimeString_string by (auto split: if_splits)
  obtain h where h: "?h = Fin h" "0 \<le> h" "h \<le> 23"
    using ok(1,3,4) by (cases ?h) auto
  obtain m where m: "?m = Fin m" "0 \<le> m" "m \<le> 59"
    using ok(2,5,6) by (cases ?m) auto
  show ?thesis
    using h m t by simp
qed

section \<open>The claims\<close>

text \<open>
  C1. With the subjects Math and Physics, the window 09:00 to 17:00, one day and a cap of
  420 minutes, on any anchor date, the plan is exactly five items in this order: Study Math
  09:00 to 11:00, Study Physics 11:00 to 13:00, Lunch Break 13:00 to 14:00, Study Math 14:00
  to 16:00 and Study Physics 16:00 to 17:00; no Snack Break and no Dinner Break.
\<close>

theorem end_to_end:
  "buildStructuredPlan
     \<lparr>anchorDate = anchor, subjectNames = [''Math'', ''Physics''], totalDays = 1,
      startTime = \<lparr>hours = 9, minutes = 0\<rparr>, endTime = \<lparr>hours = 17, minutes = 0\<rparr>,
      maxStudyMinutesPerDay = 420\<rparr>
   = Some
       [\<lparr>start = setHours anchor 0 0 + 540, end' = setHours anchor 0 0 + 660,
          title = ''Study Math'', subjectId = None, completed = False\<rparr>,
        \<lparr>start = setHours anchor 0 0 + 660, end' = setHours anchor 0 0 + 780,
          title = ''Study Physics'', subjectId = None, completed = False\<rparr>,
        \<lparr>start = setHours anchor 0 0 + 780, end' = setHours anchor 0 0 + 840,
          title = ''Lunch Break'', subjectId = None, completed = False\<rparr>,
        \<lparr>start = setHours anchor 0 0 + 840, end' = setHours anchor 0 0 + 960,
          title = ''Study Math'', subjectId = None, completed = False\<rparr>,
        \<lparr>start = setHours anchor 0 0 + 960, end' = setHours anchor 0 0 + 1020,
          title = ''Study Physics'', subjectId = None, completed = False\<rparr>]"
proof -
  let ?a = "\<lparr>anchorDate = anchor, subjectNames = [''Math'', ''Physics''], totalDays = 1,
      startTime = \<lparr>hours = 9, minutes = 0\<rparr>, endTime = \<lparr>hours = 17, minutes = 0\<rparr>,
      maxStudyMinutesPerDay = 420\<rparr>"
  let ?B = "setHours anchor 0 0"
  have B: "?B mod 1440 = 0"
    by (rule midnight_mod)
  have w: "dayWindow ?a 0 = (?B + 540, ?B + 1020)"
    unfolding dayWindow_def baseDate_def using window_0900_1700 [OF B] by simp
  have b: "dayBreaks ?a 0 = [\<lparr>start = ?B + 780, end' = ?B + 840, title = ''Lunch Break''\<rparr>]"
    unfolding dayBreaks_def w fst_conv snd_conv baseDate_def
    using breaks_0900_1700 [OF B] by simp
  have ws: "dayWindows ?a 0
      = [\<lparr>start = ?B + 540, end' = ?B + 780\<rparr>, \<lparr>start = ?B + 840, end' = ?B + 1020\<rparr>]"
    unfolding dayWindows_def w b fst_conv snd_conv by (rule windows_0900_1700)
  have ss: "daySessions ?a 0 0 = Some (
       [\<lparr>start = ?B + 540, end' = ?B + 660, title = ''Study Math'', subjectId = None,
          completed = False\<rparr>,
        \<lparr>start = ?B + 660, end' = ?B + 780, title = ''Study Physics'', subjectId = None,
          completed = False\<rparr>,
        \<lparr>start = ?B + 840, end' = ?B + 960, title = ''Study Math'', subjectId = None,
          completed = False\<rparr>,
        \<lparr>start = ?B + 960, end' = ?B + 1020, title = ''Study Physics'', subjectId = None,
          completed = False\<rparr>], 4)"
  proof (rule daySessions_eval [OF ws])
    show "availableMinutes
      [\<lparr>start = ?B + 540, end' = ?B + 780\<rparr>, \<lparr>start = ?B + 840, end' = ?B + 1020\<rparr>] = 420"
      by (simp add: availableMinutes_def minutesBetweenDates_def)
    show "choosePreferredBlockMinutes 420 (int (length (subjectNames ?a))) = 120"
      by (simp add: choosePreferredBlockMinutes_int)
    show "fillWindows 120 (min (maxStudyMinutesPerDay ?a) 420) (subjectNames ?a)
      [\<lparr>start = ?B + 540, end' = ?B + 780\<rparr>, \<lparr>start = ?B + 840, end' = ?B + 1020\<rparr>] 0 0 []
      = Some (420, 4,
       [\<lparr>start = ?B + 540, end' = ?B + 660, title = ''Study Math'', subjectId = None,
          completed = False\<rparr>,
        \<lparr>start = ?B + 660, end' = ?B + 780, title = ''Study Physics'', subjectId = None,
          completed = False\<rparr>,
        \<lparr>start = ?B + 840, end' = ?B + 960, title = ''Study Math'', subjectId = None,
          completed = False\<rparr>,
        \<lparr>start = ?B + 960, end' = ?B + 1020, title = ''Study Physics'', subjectId = None,
          completed = False\<rparr>])"
      using fill_0900_1700 [of ?B] by simp
  qed simp_all
  have merged: "sort_key start (
       [\<lparr>start = ?B + 540, end' = ?B + 660, title = ''Study Math'', subjectId = None,
          completed = False\<rparr>,
        \<lparr>start = ?B + 660, end' = ?B + 780, title = ''Study Physics'', subjectId = None,
          completed = False\<rparr>,
        \<lparr>start = ?B + 840, end' = ?B + 960, title = ''Study Math'', subjectId = None,
          completed = False\<rparr>,
        \<lparr>start = ?B + 960, end' = ?B + 1020, title = ''Study Physics'', subjectId = None,
          completed = False\<rparr>]
       @ map breakItem [\<lparr>start = ?B + 780, end' = ?B + 840, title = ''Lunch Break''\<rparr>])
     = [\<lparr>start = ?B + 540, end' = ?B + 660, title = ''Study Math'', subjectId = None,
          completed = False\<rparr>,
        \<lparr>start = ?B + 660, end' = ?B + 780, title = ''Study Physics'', subjectId = None,
          completed = False\<rparr>,
        \<lparr>start = ?B + 780, end' = ?B + 840, title = ''Lunch Break'', subjectId = None,
          completed = False\<rparr>,
        \<lparr>start = ?B + 840, end' = ?B + 960, title = ''Study Math'', subjectId = None,
          completed = False\<rparr>,
        \<lparr>start = ?B + 960, end' = ?B + 1020, title = ''Study Physics'', subjectId = None,
          completed = False\<rparr>]"
    by (simp add: breakItem_def)
  show ?thesis
  proof (rule plan_one_day)
    show "totalDays ?a = 1"
      by simp
    show "planDay ?a 0 0 = Some (
       [\<lparr>start = ?B + 540, end' = ?B + 660, title = ''Study Math'', subjectId = None,
          completed = False\<rparr>,
        \<lparr>start = ?B + 660, end' = ?B + 780, title = ''Study Physics'', subjectId = None,
          completed = False\<rparr>,
        \<lparr>start = ?B + 780, end' = ?B + 840, title = ''Lunch Break'', subjectId = None,
          completed = False\<rparr>,
        \<lparr>start = ?B + 840, end' = ?B + 960, title = ''Study Math'', subjectId = None,
          completed = False\<rparr>,
        \<lparr>start = ?B + 960, end' = ?B + 1020, title = ''Study Physics'', subjectId = None,
          completed = False\<rparr>], 4)"
      using planDay_eval [OF ss b] unfolding merged .
  qed
qed

theorem end_to_end_witness:
  "map_option (map (\<lambda>it. (title it, start it, end' it)))
     (buildStructuredPlan \<lparr>anchorDate = 0, subjectNames = [''Math'', ''Physics''], totalDays = 1,
      startTime = \<lparr>hours = 9, minutes = 0\<rparr>, endTime = \<lparr>hours = 17, minutes = 0\<rparr>,
      maxStudyMinutesPerDay = 420\<rparr>)
   = Some [(''Study Math'', 540, 660), (''Study Physics'', 660, 780),
           (''Lunch Break'', 780, 840), (''Study Math'', 840, 960),
           (''Study Physics'', 960, 1020)]"
  using end_to_end [of 0] by (simp add: setHours_def)

text \<open>
  C2, as the claim states it, fails: with the window 12:30 to 17:00 the instant 12:30 lies
  in the window, in no free slot and in no break, since the half hour before lunch is
  shorter than the minimum block and is filtered out.
\<close>

theorem free_slots_complement_counterexample:
  "fst (dayWindow \<lparr>anchorDate = 0, subjectNames = [''Math''], totalDays = 1,
          startTime = \<lparr>hours = 12, minutes = 30\<rparr>, endTime = \<lparr>hours = 17, minutes = 0\<rparr>,
          maxStudyMinutesPerDay = 270\<rparr> 0) \<le> 750
   \<and> 750 < snd (dayWindow \<lparr>anchorDate = 0, subjectNames = [''Math''], totalDays = 1,
          startTime = \<lparr>hours = 12, minutes = 30\<rparr>, endTime = \<lparr>hours = 17, minutes = 0\<rparr>,
          maxStudyMinutesPerDay = 270\<rparr> 0)
   \<and> \<not> covers (dayWindows \<lparr>anchorDate = 0, subjectNames = [''Math''], totalDays = 1,
          startTime = \<lparr>hours = 12, minutes = 30\<rparr>, endTime = \<lparr>hours = 17, minutes = 0\<rparr>,
          maxStudyMinutesPerDay = 270\<rparr> 0) 750
   \<and> \<not> covers (dayBreaks \<lparr>anchorDate = 0, subjectNames = [''Math''], totalDays = 1,
          startTime = \<lparr>hours = 12, minutes = 30\<rparr>, endTime = \<lparr>hours = 17, minutes = 0\<rparr>,
          maxStudyMinutesPerDay = 270\<rparr> 0) 750"
  by code_simp

text \<open>
  C2, amended. For every day, an instant lies in the day's window exactly when it lies in a
  free slot, in a break or in a residue shorter than 60 minutes that the slot filter
  discards, and no instant lies in two of the three.
\<close>

theorem free_slots_complement:
  "(covers (dayWindows a d) t \<or> covers (dayBreaks a d) t
      \<or> covers (shortResidues (fst (dayWindow a d)) (snd (dayWindow a d)) (dayBreaks a d)) t)
     = (fst (dayWindow a d) \<le> t \<and> t < snd (dayWindow a d))
   \<and> \<not> (covers (dayWindows a d) t \<and> covers (dayBreaks a d) t)
   \<and> \<not> (covers (shortResidues (fst (dayWindow a d)) (snd (dayWindow a d)) (dayBreaks a d)) t
          \<and> covers (dayBreaks a d) t)
   \<and> \<not> (covers (dayWindows a d) t
          \<and> covers (shortResidues (fst (dayWindow a d)) (snd (dayWindow a d)) (dayBreaks a d)) t)"
proof -
  let ?S = "fst (dayWindow a d)" and ?E = "snd (dayWindow a d)" and ?bs = "dayBreaks a d"
  let ?cs = "candidateWindows ?S ?E ?bs"
  let ?short = "\<lambda>s::slot. minutesBetweenDates (start s) (end' s) < MIN_BLOCK_MINUTES"
  note pb = dayBreaks_placed [of a d]
  have split: "covers ?cs t = (covers (shortResidues ?S ?E ?bs) t \<or> covers (dayWindows a d) t)"
    unfolding shortResidues_def dayWindows_filter by (rule covers_filter_split)
  have cover: "(covers ?cs t \<or> covers ?bs t) = (?S \<le> t \<and> t < ?E)"
    using pb by (rule candidate_cover)
  have 1: "(covers (dayWindows a d) t \<or> covers ?bs t \<or> covers (shortResidues ?S ?E ?bs) t)
             = (?S \<le> t \<and> t < ?E)"
    using cover split by blast
  have apart: "\<not> (covers ?cs t \<and> covers ?bs t)"
  proof
    assume "covers ?cs t \<and> covers ?bs t"
    then obtain w b where w: "w \<in> set ?cs" "start w \<le> t" "t < end' w"
      and b: "b \<in> set ?bs" "start b \<le> t" "t < end' b"
      by (auto simp add: covers_def)
    have "disj w b"
      using pb w(1) b(1) by (rule candidate_disj)
    then show False
      using w b by (auto simp add: disj_def)
  qed
  have 2: "\<not> (covers (dayWindows a d) t \<and> covers ?bs t)"
    and 3: "\<not> (covers (shortResidues ?S ?E ?bs) t \<and> covers ?bs t)"
    using apart split by blast+
  have 4: "\<not> (covers (dayWindows a d) t \<and> covers (shortResidues ?S ?E ?bs) t)"
  proof
    assume "covers (dayWindows a d) t \<and> covers (shortResidues ?S ?E ?bs) t"
    then obtain x y where x: "x \<in> set ?cs" "\<not> ?short x" "start x \<le> t" "t < end' x"
      and y: "y \<in> set ?cs" "?short y" "start y \<le> t" "t < end' y"
      unfolding dayWindows_filter shortResidues_def covers_def by auto
    have "x = y"
      using candidate_before [OF pb] _ x(1) y(1) x(3,4) y(3,4)
    proof (rule before_unique)
      show "\<forall>x\<in>set ?cs. proper x"
        using candidate_inside [OF pb] by blast
    qed
    then show False
      using x(2) y(2) by simp
  qed
  show ?thesis
    using 1 2 3 4 by (intro conjI)
qed

theorem free_slots_complement_witness:
  "covers (shortResidues 750 1020 [\<lparr>start = 780, end' = 840, title = ''Lunch Break''\<rparr>]) 770
   \<and> \<not> covers (dayWindows \<lparr>anchorDate = 0, subjectNames = [''Math''], totalDays = 1,
          startTime = \<lparr>hours = 12, minutes = 30\<rparr>, endTime = \<lparr>hours = 17, minutes = 0\<rparr>,
          maxStudyMinutesPerDay = 270\<rparr> 0) 770"
proof -
  let ?a = "\<lparr>anchorDate = 0, subjectNames = [''Math''], totalDays = 1,
          startTime = \<lparr>hours = 12, minutes = 30\<rparr>, endTime = \<lparr>hours = 17, minutes = 0\<rparr>,
          maxStudyMinutesPerDay = 270\<rparr>"
  have w: "dayWindow ?a 0 = (750, 1020)"
    by code_simp
  have b: "dayBreaks ?a 0 = [\<lparr>start = 780, end' = 840, title = ''Lunch Break''\<rparr>]"
    by code_simp
  have c: "covers (shortResidues 750 1020 [\<lparr>start = 780, end' = 840, title = ''Lunch Break''\<rparr>]) 770"
    by code_simp
  have "\<not> (covers (dayWindows ?a 0) 770
          \<and> covers (shortResidues (fst (dayWindow ?a 0)) (snd (dayWindow ?a 0)) (dayBreaks ?a 0)) 770)"
    using free_slots_complement [of ?a 0 770] by blast
  then have "\<not> covers (dayWindows ?a 0) 770"
    unfolding w b fst_conv snd_conv using c by blast
  then show ?thesis
    using c by (intro conjI)
qed

text \<open>
  C3. \<open>choosePreferredBlockMinutes\<close> is 0 whenever the available minutes are below 60 or the
  subject count is at most 0, so \<open>choosePreferredBlockMinutes 0 n = 0\<close> for every \<open>n\<close>; it is
  120 at (400, 2) and 60 at (90, 2); \<open>pickBlockLength 120 90 200 = 60\<close> and
  \<open>pickBlockLength 120 50 200 = 0\<close>.
\<close>

theorem block_sizes:
  "(\<forall>a n. a < 60 \<or> n \<le> 0 \<longrightarrow> choosePreferredBlockMinutes a n = 0)
   \<and> (\<forall>n. choosePreferredBlockMinutes 0 n = 0)
   \<and> choosePreferredBlockMinutes 400 2 = 120
   \<and> choosePreferredBlockMinutes 90 2 = 60
   \<and> pickBlockLength 120 90 200 = 60
   \<and> pickBlockLength 120 50 200 = 0"
  by (simp add: choosePreferredBlockMinutes_int pickBlockLength_def MIN_BLOCK_MINUTES_def)

theorem block_sizes_witness:
  "(59::int) < 60 \<and> choosePreferredBlockMinutes 59 3 = 0
   \<and> (-1::int) \<le> 0 \<and> choosePreferredBlockMinutes 500 (-1) = 0"
  using block_sizes by simp

text \<open>
  C4. \<open>parseTimeString\<close> does not fail on every string with a non-numeric component. The
  hour and the minute component of the string \<open>:\<close> are both empty, and the parser returns
  0 hours and 0 minutes, since \<open>Number('')\<close> is 0 and not \<open>NaN\<close>. In the same way the empty
  minute component of \<open>12:\<close> and the empty hour component of \<open>:30\<close> are taken as 0, and
  the result depends on the other component only.
\<close>

theorem parse_time_empty_component:
  "hourComponent '':'' = [] \<and> minuteComponent '':'' = Some []
   \<and> parseTimeString stringToNumber (JString '':'') = Inr \<lparr>hours = Fin 0, minutes = Fin 0\<rparr>
   \<and> hourComponent ''12:'' = ''12'' \<and> minuteComponent ''12:'' = Some []
   \<and> parseTimeString stringToNumber (JString ''12:'') =
       (if stringToNumber ''12'' = NaN \<or> numLess (stringToNumber ''12'') (Fin 0)
           \<or> numLess (Fin 23) (stringToNumber ''12'')
        then Inl (Error ''Invalid time format: 12:'')
        else Inr \<lparr>hours = stringToNumber ''12'', minutes = Fin 0\<rparr>)
   \<and> hourComponent '':30'' = [] \<and> minuteComponent '':30'' = Some ''30''
   \<and> parseTimeString stringToNumber (JString '':30'') =
       (if stringToNumber ''30'' = NaN \<or> numLess (stringToNumber ''30'') (Fin 0)
           \<or> numLess (Fin 59) (stringToNumber ''30'')
        then Inl (Error ''Invalid time format: :30'')
        else Inr \<lparr>hours = Fin 0, minutes = stringToNumber ''30''\<rparr>)"
proof -
  have parts: "hourComponent '':'' = []" "minuteComponent '':'' = Some []"
    "hourComponent ''12:'' = ''12''" "minuteComponent ''12:'' = Some []"
    "hourComponent '':30'' = []" "minuteComponent '':30'' = Some ''30''"
    by (simp_all add: hourComponent_def minuteComponent_def)
  have 1: "parseTimeString stringToNumber (JString '':'') = Inr \<lparr>hours = Fin 0, minutes = Fin 0\<rparr>"
    unfolding parseTimeString_string parts by (simp add: Number_def)
  have 2: "parseTimeString stringToNumber (JString ''12:'') =
       (if stringToNumber ''12'' = NaN \<or> numLess (stringToNumber ''12'') (Fin 0)
           \<or> numLess (Fin 23) (stringToNumber ''12'')
        then Inl (Error ''Invalid time format: 12:'')
        else Inr \<lparr>hours = stringToNumber ''12'', minutes = Fin 0\<rparr>)"
    unfolding parseTimeString_string parts by (simp add: Number_def)
  have 3: "parseTimeString stringToNumber (JString '':30'') =
       (if stringToNumber ''30'' = NaN \<or> numLess (stringToNumber ''30'') (Fin 0)
           \<or> numLess (Fin 59) (stringToNumber ''30'')
        then Inl (Error ''Invalid time format: :30'')
        else Inr \<lparr>hours = Fin 0, minutes = stringToNumber ''30''\<rparr>)"
    unfolding parseTimeString_string parts by (simp add: Number_def)
  show ?thesis
    using parts 1 2 3 by (intro conjI)
qed

text \<open>
  C5. The titles of the study sessions of a whole plan, in plan order, are
  \<open>Study\<close> followed by the subjects taken round-robin by one cursor that starts at 0 and
  runs on through all the days. With the subjects A, B, C and room for five blocks a day the
  first day is Study A, B, C, A, B and leaves the cursor at 5, and the second day goes on
  with Study C, A, B, C, A.
\<close>

theorem round_robin:
  "(\<exists>items. buildStructuredPlan a = Some items
      \<and> studyTitles items = roundRobin (subjectNames a) 0 (length (studyTitles items)))
   \<and> map_option studyTitles (buildStructuredPlan \<lparr>anchorDate = 0, subjectNames = [''A'', ''B'', ''C''], totalDays = 2,
      startTime = \<lparr>hours = 8, minutes = 0\<rparr>, endTime = \<lparr>hours = 17, minutes = 0\<rparr>,
      maxStudyMinutesPerDay = 480\<rparr>)
       = Some [''Study A'', ''Study B'', ''Study C'', ''Study A'', ''Study B'',
               ''Study C'', ''Study A'', ''Study B'', ''Study C'', ''Study A'']
   \<and> map_option (\<lambda>r. (studyTitles (fst r), snd r)) (planDay \<lparr>anchorDate = 0, subjectNames = [''A'', ''B'', ''C''], totalDays = 2,
      startTime = \<lparr>hours = 8, minutes = 0\<rparr>, endTime = \<lparr>hours = 17, minutes = 0\<rparr>,
      maxStudyMinutesPerDay = 480\<rparr> 0 0)
       = Some ([''Study A'', ''Study B'', ''Study C'', ''Study A'', ''Study B''], 5)
   \<and> map_option (\<lambda>r. (studyTitles (fst r), snd r)) (planDay \<lparr>anchorDate = 0, subjectNames = [''A'', ''B'', ''C''], totalDays = 2,
      startTime = \<lparr>hours = 8, minutes = 0\<rparr>, endTime = \<lparr>hours = 17, minutes = 0\<rparr>,
      maxStudyMinutesPerDay = 480\<rparr> 1 5)
       = Some ([''Study C'', ''Study A'', ''Study B'', ''Study C'', ''Study A''], 10)"
  using round_robin_general three_subjects three_subjects_day0 three_subjects_day1
  by (intro conjI)

theorem round_robin_witness:
  "\<exists>items. buildStructuredPlan \<lparr>anchorDate = 0, subjectNames = [''Math'', ''Physics''], totalDays = 1,
      startTime = \<lparr>hours = 9, minutes = 0\<rparr>, endTime = \<lparr>hours = 17, minutes = 0\<rparr>,
      maxStudyMinutesPerDay = 420\<rparr> = Some items
     \<and> studyTitles items = [''Study Math'', ''Study Physics'', ''Study Math'', ''Study Physics'']"
proof -
  obtain items where items: "buildStructuredPlan \<lparr>anchorDate = 0, subjectNames = [''Math'', ''Physics''], totalDays = 1,
      startTime = \<lparr>hours = 9, minutes = 0\<rparr>, endTime = \<lparr>hours = 17, minutes = 0\<rparr>,
      maxStudyMinutesPerDay = 420\<rparr> = Some items"
    "studyTitles items = roundRobin [''Math'', ''Physics''] 0 (length (studyTitles items))"
    using round_robin [of "\<lparr>anchorDate = 0, subjectNames = [''Math'', ''Physics''], totalDays = 1,
      startTime = \<lparr>hours = 9, minutes = 0\<rparr>, endTime = \<lparr>hours = 17, minutes = 0\<rparr>,
      maxStudyMinutesPerDay = 420\<rparr>"] by auto
  have "map_option (\<lambda>items. length (studyTitles items)) (buildStructuredPlan \<lparr>anchorDate = 0, subjectNames = [''Math'', ''Physics''], totalDays = 1,
      startTime = \<lparr>hours = 9, minutes = 0\<rparr>, endTime = \<lparr>hours = 17, minutes = 0\<rparr>,
      maxStudyMinutesPerDay = 420\<rparr>) = Some 4"
    by code_simp
  then have "length (studyTitles items) = 4"
    using items(1) by simp
  moreover have "roundRobin [''Math'', ''Physics''] 0 4
       = [''Study Math'', ''Study Physics'', ''Study Math'', ''Study Physics'']"
    by code_simp
  ultimately show ?thesis
    using items by simp
qed

text \<open>
  C6. With a day cap that is not negative, the durations of a day's study sessions sum to at
  most the smaller of the cap and the day's free minutes; and once the minutes scheduled
  reach the day cap nothing more is placed, whatever windows remain.
\<close>

theorem day_cap:
  "0 \<le> maxStudyMinutesPerDay a \<longrightarrow>
     (\<exists>ss c'. daySessions a d sc = Some (ss, c')
        \<and> planDay a d sc = Some (sort_key start (ss @ map breakItem (dayBreaks a d)), c')
        \<and> studyMinutes ss
            \<le> min (maxStudyMinutesPerDay a) (availableMinutes (dayWindows a d)))
     \<and> (cap \<le> m \<longrightarrow> fillWindows pref cap names ws m c acc = Some (m, c, acc))
     \<and> (fillWindows pref cap names ws1 m c acc = Some (m1, c1, acc1) \<and> cap \<le> m1 \<longrightarrow>
          fillWindows pref cap names (ws1 @ ws2) m c acc = Some (m1, c1, acc1))"
proof (intro impI conjI)
  assume cap: "0 \<le> maxStudyMinutesPerDay a"
  obtain ss where ss: "daySessions a d sc = Some (ss, sc + length ss)"
    "studyMinutes ss \<le> min (maxStudyMinutesPerDay a) (availableMinutes (dayWindows a d))"
    using daySessions_spec [of a d sc] cap by blast
  have "planDay a d sc
          = Some (sort_key start (ss @ map breakItem (dayBreaks a d)), sc + length ss)"
    using ss(1) by (simp add: planDay_sessions)
  then show "\<exists>ss c'. daySessions a d sc = Some (ss, c')
        \<and> planDay a d sc = Some (sort_key start (ss @ map breakItem (dayBreaks a d)), c')
        \<and> studyMinutes ss
            \<le> min (maxStudyMinutesPerDay a) (availableMinutes (dayWindows a d))"
    using ss by blast
next
  assume "cap \<le> m"
  then show "fillWindows pref cap names ws m c acc = Some (m, c, acc)"
    by (rule fillWindows_stop)
next
  assume "fillWindows pref cap names ws1 m c acc = Some (m1, c1, acc1) \<and> cap \<le> m1"
  then show "fillWindows pref cap names (ws1 @ ws2) m c acc = Some (m1, c1, acc1)"
    using fillWindows_append_stop by blast
qed

theorem day_cap_witness:
  "(0::int) \<le> 420
   \<and> (\<exists>ss c'. daySessions \<lparr>anchorDate = 0, subjectNames = [''Math'', ''Physics''], totalDays = 1,
      startTime = \<lparr>hours = 9, minutes = 0\<rparr>, endTime = \<lparr>hours = 17, minutes = 0\<rparr>,
      maxStudyMinutesPerDay = 420\<rparr> 0 0 = Some (ss, c') \<and> studyMinutes ss \<le> 420)
   \<and> fillWindows 120 120 [''Math''] [\<lparr>start = 0, end' = 120\<rparr>, \<lparr>start = 180, end' = 300\<rparr>] 0 0 []
       = fillWindows 120 120 [''Math''] [\<lparr>start = 0, end' = 120\<rparr>] 0 0 []"
proof -
  let ?a = "\<lparr>anchorDate = 0, subjectNames = [''Math'', ''Physics''], totalDays = 1,
      startTime = \<lparr>hours = 9, minutes = 0\<rparr>, endTime = \<lparr>hours = 17, minutes = 0\<rparr>,
      maxStudyMinutesPerDay = 420\<rparr>"
  have m: "min (maxStudyMinutesPerDay ?a) (availableMinutes (dayWindows ?a 0)) = 420"
    by code_simp
  have c: "0 \<le> maxStudyMinutesPerDay ?a"
    by simp
  have "\<exists>ss c'. daySessions ?a 0 0 = Some (ss, c')
        \<and> planDay ?a 0 0 = Some (sort_key start (ss @ map breakItem (dayBreaks ?a 0)), c')
        \<and> studyMinutes ss
            \<le> min (maxStudyMinutesPerDay ?a) (availableMinutes (dayWindows ?a 0))"
    using day_cap [of ?a 0 0] c by blast
  then have 1: "\<exists>ss c'. daySessions ?a 0 0 = Some (ss, c') \<and> studyMinutes ss \<le> 420"
    unfolding m by blast
  have one: "fillWindows 120 120 [''Math''] [\<lparr>start = 0, end' = 120\<rparr>] 0 0 []
      = Some (120, 1, [studySession [''Math''] 0 0 120])"
    by code_simp
  have "fillWindows 120 120 [''Math''] ([\<lparr>start = 0, end' = 120\<rparr>] @ [\<lparr>start = 180, end' = 300\<rparr>]) 0 0 []
      = Some (120, 1, [studySession [''Math''] 0 0 120])"
    using day_cap [where a = ?a and pref = 120 and cap = 120 and names = "[''Math'']"
        and ?ws1.0 = "[\<lparr>start = 0, end' = 120\<rparr>]" and m = 0 and c = 0 and acc = "[]"
        and ?m1.0 = 120 and ?c1.0 = 1 and ?acc1.0 = "[studySession [''Math''] 0 0 120]"
        and ?ws2.0 = "[\<lparr>start = 180, end' = 300\<rparr>]"] one c
    by blast
  then have 2: "fillWindows 120 120 [''Math''] [\<lparr>start = 0, end' = 120\<rparr>, \<lparr>start = 180, end' = 300\<rparr>] 0 0 []
       = fillWindows 120 120 [''Math''] [\<lparr>start = 0, end' = 120\<rparr>] 0 0 []"
    using one by simp
  show ?thesis
    using 1 2 by (intro conjI) simp
qed

text \<open>
  C7. The items of a day, sessions and breaks merged, are strictly ordered by start and
  each ends no later than every later one starts.
\<close>

theorem day_items_ordered:
  "\<exists>items c'. planDay a d sc = Some (items, c') \<and> sorted_wrt strictlyBefore items"
proof -
  obtain ss where ss:
    "planDay a d sc = Some (sort_key start (ss @ map breakItem (dayBreaks a d)), sc + length ss)"
    "placedIn (subjectNames a) (dayWindows a d) sc ss"
    using planDay_spec by blast
  let ?items = "sort_key start (ss @ map breakItem (dayBreaks a d))"
  have ord: "sorted_wrt before ?items"
    using ss(2) by (rule merged_before)
  have pr: "\<forall>x\<in>set ?items. proper x"
    using ss(2) by (rule merged_proper)
  have "sorted_wrt strictlyBefore ?items"
    using ord
  proof (rule sorted_wrt_mono_rel [rotated])
    fix x y
    assume "x \<in> set ?items" "y \<in> set ?items" "before x y"
    then show "strictlyBefore x y"
      using pr by (simp add: proper_before_strict)
  qed
  then show ?thesis
    using ss(1) by blast
qed

theorem day_items_ordered_witness:
  "\<exists>items c'. planDay \<lparr>anchorDate = 0, subjectNames = [''Math'', ''Physics''], totalDays = 1,
      startTime = \<lparr>hours = 9, minutes = 0\<rparr>, endTime = \<lparr>hours = 17, minutes = 0\<rparr>,
      maxStudyMinutesPerDay = 420\<rparr> 0 0 = Some (items, c')
     \<and> sorted_wrt strictlyBefore items
     \<and> map start items = [540, 660, 780, 840, 960]
     \<and> map end' items = [660, 780, 840, 960, 1020]"
proof -
  obtain items c' where items: "planDay \<lparr>anchorDate = 0, subjectNames = [''Math'', ''Physics''], totalDays = 1,
      startTime = \<lparr>hours = 9, minutes = 0\<rparr>, endTime = \<lparr>hours = 17, minutes = 0\<rparr>,
      maxStudyMinutesPerDay = 420\<rparr> 0 0 = Some (items, c')"
    "sorted_wrt strictlyBefore items"
    using day_items_ordered [of "\<lparr>anchorDate = 0, subjectNames = [''Math'', ''Physics''], totalDays = 1,
      startTime = \<lparr>hours = 9, minutes = 0\<rparr>, endTime = \<lparr>hours = 17, minutes = 0\<rparr>,
      maxStudyMinutesPerDay = 420\<rparr>" 0 0] by blast
  have "map_option (\<lambda>r. (map start (fst r), map end' (fst r))) (planDay \<lparr>anchorDate = 0, subjectNames = [''Math'', ''Physics''], totalDays = 1,
      startTime = \<lparr>hours = 9, minutes = 0\<rparr>, endTime = \<lparr>hours = 17, minutes = 0\<rparr>,
      maxStudyMinutesPerDay = 420\<rparr> 0 0)
          = Some ([540, 660, 780, 840, 960], [660, 780, 840, 960, 1020])"
    by code_simp
  then have "map start items = [540, 660, 780, 840, 960]"
    "map end' items = [660, 780, 840, 960, 1020]"
    using items(1) by simp_all
  then show ?thesis
    using items by (intro exI [of _ items] exI [of _ c'] conjI)
qed

text \<open>
  C8. Every break that \<open>buildBreaksForDay\<close> emits starts at or after the window's start and
  ends at or before the window's end, so none starts at the window's end; the breaks come
  sorted ascending by start; and the emitted breaks are the fixed breaks' candidates, each
  shifted forward by one day when it starts before the window does, filtered by containment
  in the window after the shift.
\<close>

theorem breaks_for_day:
  "(\<forall>b\<in>set (buildBreaksForDay anchor d ws we). ws \<le> start b \<and> end' b \<le> we \<and> start b < we)
   \<and> sorted (map start (buildBreaksForDay anchor d ws we))
   \<and> buildBreaksForDay anchor d ws we =
       sort_key start (filter (\<lambda>c. ws \<le> start c \<and> end' c \<le> we)
         (map (\<lambda>b. shiftBreak ws (candidateBreak (setHours (addDays anchor d) 0 0) b))
            FIXED_BREAKS))"
proof (intro conjI ballI)
  fix b
  assume "b \<in> set (buildBreaksForDay anchor d ws we)"
  then have "ws \<le> start b \<and> proper b \<and> end' b \<le> we"
    by (rule breaks_inside)
  then show "ws \<le> start b" "end' b \<le> we" "start b < we"
    by (simp_all add: proper_def)
next
  show "sorted (map start (buildBreaksForDay anchor d ws we))"
    by (rule breaks_sorted)
next
  show "buildBreaksForDay anchor d ws we =
       sort_key start (filter (\<lambda>c. ws \<le> start c \<and> end' c \<le> we)
         (map (\<lambda>b. shiftBreak ws (candidateBreak (setHours (addDays anchor d) 0 0) b))
            FIXED_BREAKS))"
    by (rule buildBreaks_shift)
qed

theorem breaks_for_day_witness:
  "buildBreaksForDay 0 0 900 2310 =
     [\<lparr>start = 1020, end' = 1080, title = ''Snack Break''\<rparr>,
      \<lparr>start = 1200, end' = 1260, title = ''Dinner Break''\<rparr>,
      \<lparr>start = 2220, end' = 2280, title = ''Lunch Break''\<rparr>]
   \<and> sorted (map start (buildBreaksForDay 0 0 900 2310))
   \<and> 900 \<le> start (last (buildBreaksForDay 0 0 900 2310))
   \<and> end' (last (buildBreaksForDay 0 0 900 2310)) \<le> 2310
   \<and> start (last (buildBreaksForDay 0 0 900 2310)) < 2310"
proof -
  have e: "buildBreaksForDay 0 0 900 2310 =
     [\<lparr>start = 1020, end' = 1080, title = ''Snack Break''\<rparr>,
      \<lparr>start = 1200, end' = 1260, title = ''Dinner Break''\<rparr>,
      \<lparr>start = 2220, end' = 2280, title = ''Lunch Break''\<rparr>]"
    by code_simp
  have "last (buildBreaksForDay 0 0 900 2310) \<in> set (buildBreaksForDay 0 0 900 2310)"
    unfolding e by simp
  then have "900 \<le> start (last (buildBreaksForDay 0 0 900 2310))
     \<and> end' (last (buildBreaksForDay 0 0 900 2310)) \<le> 2310
     \<and> start (last (buildBreaksForDay 0 0 900 2310)) < 2310"
    using breaks_for_day [of 0 0 900 2310] by blast
  moreover have "sorted (map start (buildBreaksForDay 0 0 900 2310))"
    using breaks_for_day [of 0 0 900 2310] by blast
  ultimately show ?thesis
    using e by (intro conjI) blast+
qed

text \<open>
  C9. For valid times of day \<open>getDailyWindow\<close> yields the start and the end on the day at
  the given times, the end advanced by exactly one day when its time of day is not after the
  start's, and the end is strictly after the start; with 22:00 and 06:00 the end falls on the
  calendar day after the start's.
\<close>

theorem daily_window:
  "(validTime st \<and> validTime et \<longrightarrow>
     fst (getDailyWindow anchor d st et)
       = setHours (addDays anchor d) 0 0 + (hours st * 60 + minutes st)
     \<and> snd (getDailyWindow anchor d st et)
       = setHours (addDays anchor d) 0 0 + (hours et * 60 + minutes et)
         + (if hours et * 60 + minutes et \<le> hours st * 60 + minutes st then 1440 else 0)
     \<and> fst (getDailyWindow anchor d st et) < snd (getDailyWindow anchor d st et))
   \<and> setHours (snd (getDailyWindow anchor d \<lparr>hours = 22, minutes = 0\<rparr>
                       \<lparr>hours = 6, minutes = 0\<rparr>)) 0 0
       = addDays (setHours (fst (getDailyWindow anchor d \<lparr>hours = 22, minutes = 0\<rparr>
                                   \<lparr>hours = 6, minutes = 0\<rparr>)) 0 0) 1"
  using window_valid wrap_next_day by (intro conjI)

theorem daily_window_witness:
  "validTime \<lparr>hours = 9, minutes = 30\<rparr> \<and> validTime \<lparr>hours = 9, minutes = 30\<rparr>
   \<and> getDailyWindow 0 2 \<lparr>hours = 9, minutes = 30\<rparr> \<lparr>hours = 9, minutes = 30\<rparr> = (3450, 4890)
   \<and> fst (getDailyWindow 0 2 \<lparr>hours = 9, minutes = 30\<rparr> \<lparr>hours = 9, minutes = 30\<rparr>)
       < snd (getDailyWindow 0 2 \<lparr>hours = 9, minutes = 30\<rparr> \<lparr>hours = 9, minutes = 30\<rparr>)"
proof -
  have v: "validTime \<lparr>hours = 9, minutes = 30\<rparr>"
    by (simp add: validTime_def)
  have e: "getDailyWindow 0 2 \<lparr>hours = 9, minutes = 30\<rparr> \<lparr>hours = 9, minutes = 30\<rparr> = (3450, 4890)"
    by (simp add: getDailyWindow_def setHours_def addDays_def)
  have "fst (getDailyWindow 0 2 \<lparr>hours = 9, minutes = 30\<rparr> \<lparr>hours = 9, minutes = 30\<rparr>)
       < snd (getDailyWindow 0 2 \<lparr>hours = 9, minutes = 30\<rparr> \<lparr>hours = 9, minutes = 30\<rparr>)"
    using daily_window [of "\<lparr>hours = 9, minutes = 30\<rparr>" "\<lparr>hours = 9, minutes = 30\<rparr>" 0 2] v
    by blast
  then show ?thesis
    using v e by (intro conjI)
qed

text \<open>
  C10. Every item of a plan has the subject reference null and is not completed. A day's study sessions have
  titles that begin with \<open>Study\<close> and pass the study-item test of \<open>createPlan\<close>; its
  breaks have none of the two, and they carry the same null reference.
\<close>

theorem items_unbound:
  "(\<exists>items. buildStructuredPlan a = Some items
      \<and> (\<forall>it\<in>set items. subjectId it = None \<and> completed it = False))
   \<and> (\<exists>ss c'. daySessions a d sc = Some (ss, c')
         \<and> planDay a d sc = Some (sort_key start (ss @ map breakItem (dayBreaks a d)), c')
         \<and> (\<forall>s\<in>set ss. subjectId s = None \<and> startsWith (title s) ''Study'' \<and> isStudyItem s))
   \<and> (\<forall>b\<in>set (dayBreaks a d). subjectId (breakItem b) = None
         \<and> \<not> startsWith (title (breakItem b)) ''Study'' \<and> \<not> isStudyItem (breakItem b))"
proof (intro conjI)
  obtain new where "planDays a [0 ..< totalDays a] 0 [] = Some ([] @ new)"
    "\<forall>it\<in>set new. subjectId it = None \<and> completed it = False"
    using planDays_spec [of a "[0 ..< totalDays a]" 0 "[]"] by blast
  then show "\<exists>items. buildStructuredPlan a = Some items
      \<and> (\<forall>it\<in>set items. subjectId it = None \<and> completed it = False)"
    by (simp add: buildStructuredPlan_def)
next
  obtain ss where ss: "daySessions a d sc = Some (ss, sc + length ss)"
    "placedIn (subjectNames a) (dayWindows a d) sc ss"
    using daySessions_spec [of a d sc] by blast
  have pd: "planDay a d sc
          = Some (sort_key start (ss @ map breakItem (dayBreaks a d)), sc + length ss)"
    using ss(1) by (simp add: planDay_sessions)
  have "\<forall>s\<in>set ss. subjectId s = None \<and> startsWith (title s) ''Study'' \<and> isStudyItem s"
  proof
    fix s
    assume s: "s \<in> set ss"
    obtain k where "title s = ''Study '' @ subjectAt (subjectNames a) k"
      using placedIn_title [OF ss(2) s] by blast
    then have "startsWith (title s) ''Study''"
      by (simp add: startsWith_def)
    moreover have "isStudyItem s"
      using ss(2) s by (rule placedIn_study)
    moreover have "subjectId s = None"
      using ss(2) s by (simp add: placedIn_def)
    ultimately show "subjectId s = None \<and> startsWith (title s) ''Study'' \<and> isStudyItem s"
      by blast
  qed
  then show "\<exists>ss c'. daySessions a d sc = Some (ss, c')
         \<and> planDay a d sc = Some (sort_key start (ss @ map breakItem (dayBreaks a d)), c')
         \<and> (\<forall>s\<in>set ss. subjectId s = None \<and> startsWith (title s) ''Study'' \<and> isStudyItem s)"
    using ss(1) pd by blast
next
  show "\<forall>b\<in>set (dayBreaks a d). subjectId (breakItem b) = None
         \<and> \<not> startsWith (title (breakItem b)) ''Study'' \<and> \<not> isStudyItem (breakItem b)"
  proof
    fix b
    assume b: "b \<in> set (dayBreaks a d)"
    then have "title b = ''Lunch Break'' \<or> title b = ''Snack Break'' \<or> title b = ''Dinner Break''"
      unfolding dayBreaks_def buildBreaksForDay_def Let_def using placed_titles by simp
    then have "\<not> startsWith (title (breakItem b)) ''Study''"
      unfolding breakItem_simps using break_titles_prefix by auto
    then show "subjectId (breakItem b) = None
         \<and> \<not> startsWith (title (breakItem b)) ''Study'' \<and> \<not> isStudyItem (breakItem b)"
      using dayBreaks_not_study [OF b] by (simp add: breakItem_simps)
  qed
qed

theorem items_unbound_witness:
  "\<exists>items. buildStructuredPlan \<lparr>anchorDate = 0, subjectNames = [''Math'', ''Physics''], totalDays = 1,
      startTime = \<lparr>hours = 9, minutes = 0\<rparr>, endTime = \<lparr>hours = 17, minutes = 0\<rparr>,
      maxStudyMinutesPerDay = 420\<rparr> = Some items \<and> map subjectId items = [None, None, None, None, None]"
proof -
  obtain items where items: "buildStructuredPlan \<lparr>anchorDate = 0, subjectNames = [''Math'', ''Physics''], totalDays = 1,
      startTime = \<lparr>hours = 9, minutes = 0\<rparr>, endTime = \<lparr>hours = 17, minutes = 0\<rparr>,
      maxStudyMinutesPerDay = 420\<rparr> = Some items"
    "\<forall>it\<in>set items. subjectId it = None \<and> completed it = False"
    using items_unbound [of "\<lparr>anchorDate = 0, subjectNames = [''Math'', ''Physics''], totalDays = 1,
      startTime = \<lparr>hours = 9, minutes = 0\<rparr>, endTime = \<lparr>hours = 17, minutes = 0\<rparr>,
      maxStudyMinutesPerDay = 420\<rparr>" 0 0] by blast
  have "map_option length (buildStructuredPlan \<lparr>anchorDate = 0, subjectNames = [''Math'', ''Physics''], totalDays = 1,
      startTime = \<lparr>hours = 9, minutes = 0\<rparr>, endTime = \<lparr>hours = 17, minutes = 0\<rparr>,
      maxStudyMinutesPerDay = 420\<rparr>) = Some 5"
    by code_simp
  then have "length items = 5"
    using items(1) by simp
  moreover have "map subjectId items = replicate (length items) None"
    using items(2) by (simp add: map_replicate_const [symmetric] cong: map_cong)
  ultimately show ?thesis
    using items(1) by (simp add: numeral_eq_Suc)
qed

end
